theory Spec2Isabelle
  imports Complex_Main
begin

section \<open>Python values, exceptions and the object store\<close>

text \<open>
  The notebook \<^verbatim>\<open>Conway's Game of Life.ipynb\<close> keeps a board as a Python list of
  row lists. Row lists are mutable objects: \<^verbatim>\<open>assign\<close> stores into one of them in
  place. The store below holds the row objects; an address is an index into it, and
  allocation appends. A board (the outer list) is the list of the addresses of its rows,
  so two boards, or two rows of one board, may share a row object.
  The outer list is only ever built by \<^verbatim>\<open>append\<close> inside \<^verbatim>\<open>new_board\<close> and never
  stored into afterwards, so it is kept as a value.
\<close>

datatype error = ZeroDivisionError | IndexError | NameError

type_synonym heap = "int list list"

type_synonym board = "nat list"

text \<open>\<^verbatim>\<open>len(board[0])\<close> and \<^verbatim>\<open>board[i][j]\<close> for indices that are in range.\<close>

definition width :: "heap \<Rightarrow> board \<Rightarrow> nat" where
  "width h board = length (h ! (board ! 0))"

definition cell :: "heap \<Rightarrow> board \<Rightarrow> nat \<Rightarrow> nat \<Rightarrow> int" where
  "cell h board i j = h ! (board ! i) ! j"

text \<open>
  \<^verbatim>\<open>def get(board, x, y): return board[y % len(board)][x % len(board[0])]\<close>

  Python's \<^verbatim>\<open>%\<close> with a positive divisor is the floored remainder, which is \<open>mod\<close>
  on \<open>int\<close>; with divisor zero it raises. The row is fetched before the column index
  is computed.
\<close>

definition get :: "heap \<Rightarrow> board \<Rightarrow> int \<Rightarrow> int \<Rightarrow> error + int" where
  "get h board x y =
     (if length board = 0 then Inl ZeroDivisionError
      else let r = h ! (board ! nat (y mod int (length board)));
               w = length (h ! (board ! 0))
           in if w = 0 then Inl ZeroDivisionError
              else let j = nat (x mod int w)
                   in if j < length r then Inr (r ! j) else Inl IndexError)"

text \<open>
  \<^verbatim>\<open>def assign(board, x, y, value): board[y % len(board)][x % len(board[0])] = value\<close>

  The store of the row object is updated in place; the result is the new store.
\<close>

definition assign :: "heap \<Rightarrow> board \<Rightarrow> int \<Rightarrow> int \<Rightarrow> int \<Rightarrow> error + heap" where
  "assign h board x y v =
     (if length board = 0 then Inl ZeroDivisionError
      else let a = board ! nat (y mod int (length board));
               w = length (h ! (board ! 0))
           in if w = 0 then Inl ZeroDivisionError
              else let j = nat (x mod int w)
                   in if j < length (h ! a) then Inr (h[a := (h ! a)[j := v]])
                      else Inl IndexError)"

text \<open>
  The elements of a list display are evaluated from left to right; the first one that
  raises ends the evaluation.
\<close>

fun sequence_res :: "(error + 'a) list \<Rightarrow> error + 'a list" where
  "sequence_res [] = Inr []"
| "sequence_res (r # rs) =
     (case r of
        Inl e \<Rightarrow> Inl e
      | Inr v \<Rightarrow> (case sequence_res rs of Inl e \<Rightarrow> Inl e | Inr vs \<Rightarrow> Inr (v # vs)))"

text \<open>
  \<^verbatim>\<open>
  def count_neighbors(board, x, y):
      return sum([
          get(board, x - 1, y),     get(board, x + 1, y),
          get(board, x, y - 1),     get(board, x, y + 1),
          get(board, x + 1, y + 1), get(board, x + 1, y - 1),
          get(board, x - 1, y + 1), get(board, x - 1, y - 1)])
  \<close>
\<close>

definition count_neighbors :: "heap \<Rightarrow> board \<Rightarrow> int \<Rightarrow> int \<Rightarrow> error + int" where
  "count_neighbors h board x y =
     (case sequence_res
        [get h board (x - 1) y,
         get h board (x + 1) y,
         get h board x (y - 1),
         get h board x (y + 1),
         get h board (x + 1) (y + 1),
         get h board (x + 1) (y - 1),
         get h board (x - 1) (y + 1),
         get h board (x - 1) (y - 1)] of
        Inl e \<Rightarrow> Inl e
      | Inr vs \<Rightarrow> Inr (sum_list vs))"

section \<open>The interpreter state\<close>

text \<open>
  The state threaded through the notebook's functions: the object store, the number of
  values drawn so far from the random source, and a log of the calls made by the loop of
  \<^verbatim>\<open>process_life\<close> (\<open>Count x y\<close> for \<^verbatim>\<open>count_neighbors(board, x, y)\<close>,
  \<open>Assign x y v\<close> for \<^verbatim>\<open>assign(next_board, x, y, v)\<close>).
  The random source is a function \<open>rng\<close>: its \<open>k\<close>-th value decides the \<open>k\<close>-th
  call of \<^verbatim>\<open>random.choice\<close>.
\<close>

datatype event = Count nat nat | Assign nat nat int

record state =
  store :: heap
  draws :: nat
  trace :: "event list"

text \<open>
  A \<^verbatim>\<open>for\<close> loop over a list: the body runs on each element in order, and an
  exception raised by the body leaves the loop.
\<close>

fun for_each :: "'i list \<Rightarrow> ('i \<Rightarrow> 's \<Rightarrow> error + 's) \<Rightarrow> 's \<Rightarrow> error + 's" where
  "for_each [] body s = Inr s"
| "for_each (i # is) body s =
     (case body i s of Inl e \<Rightarrow> Inl e | Inr s' \<Rightarrow> for_each is body s')"

text \<open>
  \<^verbatim>\<open>random.choice(seq)\<close> returns the element of \<open>seq\<close> at a random index below
  \<^verbatim>\<open>len(seq)\<close>, and raises IndexError on an empty sequence.
\<close>

definition choice :: "nat \<Rightarrow> 'a list \<Rightarrow> error + 'a" where
  "choice r seq = (if seq = [] then Inl IndexError else Inr (seq ! (r mod length seq)))"

text \<open>
  \<^verbatim>\<open>
  def new_board(x, y, num_live_cells=2, num_dead_cells=3):
      board = []
      for i in range(0, y):
          board.append([random.choice([0] * num_dead_cells + [1] * num_live_cells)
                        for _ in range(0, x)])
      return board
  \<close>
  Each row is a new list object: it is allocated at the end of the store.
\<close>

definition new_row :: "(nat \<Rightarrow> nat) \<Rightarrow> int \<Rightarrow> int \<Rightarrow> int \<Rightarrow> nat \<Rightarrow> error + int list" where
  "new_row rng x num_live_cells num_dead_cells k =
     sequence_res
       (map (\<lambda>i. choice (rng (k + i))
                    (replicate (nat num_dead_cells) 0 @ replicate (nat num_live_cells) 1))
            [0..<nat x])"

definition new_board_step ::
  "(nat \<Rightarrow> nat) \<Rightarrow> int \<Rightarrow> int \<Rightarrow> int \<Rightarrow> nat \<Rightarrow> state \<times> board \<Rightarrow> error + state \<times> board" where
  "new_board_step rng x num_live_cells num_dead_cells i sb =
     (case sb of (s, board) \<Rightarrow>
        (case new_row rng x num_live_cells num_dead_cells (draws s) of
           Inl e \<Rightarrow> Inl e
         | Inr r \<Rightarrow>
             Inr (s\<lparr>store := store s @ [r], draws := draws s + nat x\<rparr>,
                  board @ [length (store s)])))"

definition new_board ::
  "(nat \<Rightarrow> nat) \<Rightarrow> state \<Rightarrow> int \<Rightarrow> int \<Rightarrow> int \<Rightarrow> int \<Rightarrow> error + state \<times> board" where
  "new_board rng s x y num_live_cells num_dead_cells =
     for_each [0..<nat y] (new_board_step rng x num_live_cells num_dead_cells) (s, [])"

text \<open>
  The body of the inner loop of \<^verbatim>\<open>process_life\<close>:
  \<^verbatim>\<open>
  num_neighbors = count_neighbors(board, x, y)
  is_alive = get(board, x, y) == 1
  if num_neighbors < 2 and is_alive:          assign(next_board, x, y, 0)
  elif 2 <= num_neighbors <= 3 and is_alive:  assign(next_board, x, y, 1)
  elif num_neighbors > 3 and is_alive:        assign(next_board, x, y, 0)
  elif num_neighbors == 3 and not is_alive:   assign(next_board, x, y, 1)
  else:                                       assign(next_board, x, y, 0)
  \<close>
  Every branch is one call of \<^verbatim>\<open>assign\<close> on \<^verbatim>\<open>next_board\<close> at \<open>(x, y)\<close>;
  \<open>rule_value\<close> is the value that the branch taken passes.
\<close>

definition rule_value :: "int \<Rightarrow> bool \<Rightarrow> int" where
  "rule_value num_neighbors is_alive =
     (if num_neighbors < 2 \<and> is_alive then 0
      else if 2 \<le> num_neighbors \<and> num_neighbors \<le> 3 \<and> is_alive then 1
      else if num_neighbors > 3 \<and> is_alive then 0
      else if num_neighbors = 3 \<and> \<not> is_alive then 1
      else 0)"

definition process_cell :: "board \<Rightarrow> board \<Rightarrow> nat \<Rightarrow> nat \<Rightarrow> state \<Rightarrow> error + state" where
  "process_cell board next_board y x s =
     (case count_neighbors (store s) board (int x) (int y) of
        Inl e \<Rightarrow> Inl e
      | Inr num_neighbors \<Rightarrow>
          (case get (store s) board (int x) (int y) of
             Inl e \<Rightarrow> Inl e
           | Inr c \<Rightarrow>
               (let is_alive = (c = 1);
                    v = rule_value num_neighbors is_alive
                in case assign (store s) next_board (int x) (int y) v of
                     Inl e \<Rightarrow> Inl e
                   | Inr h' \<Rightarrow>
                       Inr (s\<lparr>store := h',
                              trace := trace s @ [Count x y, Assign x y v]\<rparr>))))"

text \<open>
  \<^verbatim>\<open>
  def process_life(board):
      next_board = new_board(len(board[0]), len(board))
      for y in range(0, len(board)):
          for x in range(0, len(board[y])):
              ...
      return next_board
  \<close>
  \<^verbatim>\<open>board[0]\<close> raises IndexError on an empty outer list. The bound of the inner loop
  is read from the store when row \<open>y\<close> is reached.
\<close>

definition process_row :: "board \<Rightarrow> board \<Rightarrow> nat \<Rightarrow> state \<Rightarrow> error + state" where
  "process_row board next_board y s =
     for_each [0..<length (store s ! (board ! y))] (process_cell board next_board y) s"

definition process_life :: "(nat \<Rightarrow> nat) \<Rightarrow> state \<Rightarrow> board \<Rightarrow> error + state \<times> board" where
  "process_life rng s board =
     (if board = [] then Inl IndexError
      else case new_board rng s (int (length (store s ! (board ! 0)))) (int (length board)) 2 3 of
             Inl e \<Rightarrow> Inl e
           | Inr (s1, next_board) \<Rightarrow>
               (case for_each [0..<length board] (process_row board next_board) s1 of
                  Inl e \<Rightarrow> Inl e
                | Inr s2 \<Rightarrow> Inr (s2, next_board)))"

section \<open>Well-formed boards\<close>

text \<open>
  A non-empty rectangular board: at least one row, at least one column, every row
  address allocated and every row of the width of row 0.
\<close>

definition rectangular :: "heap \<Rightarrow> board \<Rightarrow> bool" where
  "rectangular h board \<longleftrightarrow>
     board \<noteq> [] \<and> 0 < width h board \<and>
     list_all (\<lambda>a. a < length h \<and> length (h ! a) = width h board) board"

text \<open>
  A board as \<^verbatim>\<open>new_board\<close> builds it: every row address allocated and every row of
  the width of row 0. The outer list may be empty and the rows may be empty.
\<close>

definition uniform :: "heap \<Rightarrow> board \<Rightarrow> bool" where
  "uniform h board \<longleftrightarrow>
     list_all (\<lambda>a. a < length h \<and> length (h ! a) = width h board) board"

text \<open>A board of any shape whose row addresses are all allocated.\<close>

definition allocated :: "heap \<Rightarrow> board \<Rightarrow> bool" where
  "allocated h board \<longleftrightarrow> list_all (\<lambda>a. a < length h) board"

text \<open>Every cell is 0 (dead) or 1 (alive).\<close>

definition binary :: "heap \<Rightarrow> board \<Rightarrow> bool" where
  "binary h board \<longleftrightarrow> list_all (\<lambda>a. list_all (\<lambda>c. c = 0 \<or> c = 1) (h ! a)) board"

text \<open>The index \<^verbatim>\<open>k % n\<close> as a natural number.\<close>

definition wrap :: "nat \<Rightarrow> int \<Rightarrow> nat" where
  "wrap n k = nat (k mod int n)"

section \<open>The result of one generation, written as values\<close>

text \<open>
  The eight offsets in the order in which \<^verbatim>\<open>count_neighbors\<close> reads them, the sum it
  forms on a rectangular board, the value the rules give to a cell, and the rows and the
  call log that \<^verbatim>\<open>process_life\<close> produces. \<open>fresh_rows h0 n w h\<close> says that \<open>h\<close>
  is \<open>h0\<close> followed by \<open>n\<close> newly allocated rows of length \<open>w\<close>.
\<close>

definition offsets :: "(int \<times> int) list" where
  "offsets = [(-1, 0), (1, 0), (0, -1), (0, 1), (1, 1), (1, -1), (-1, 1), (-1, -1)]"

definition neighbor_sum :: "heap \<Rightarrow> board \<Rightarrow> int \<Rightarrow> int \<Rightarrow> int" where
  "neighbor_sum h board x y =
     sum_list (map (\<lambda>(dx, dy). cell h board (wrap (length board) (y + dy))
                                              (wrap (width h board) (x + dx))) offsets)"

definition next_value :: "heap \<Rightarrow> board \<Rightarrow> nat \<Rightarrow> nat \<Rightarrow> int" where
  "next_value h board x y =
     rule_value (neighbor_sum h board (int x) (int y)) (cell h board y x = 1)"

definition next_rows :: "heap \<Rightarrow> board \<Rightarrow> heap" where
  "next_rows h board =
     map (\<lambda>y. map (\<lambda>x. next_value h board x y) [0..<width h board]) [0..<length board]"

definition cell_trace :: "heap \<Rightarrow> board \<Rightarrow> nat \<Rightarrow> nat \<Rightarrow> event list" where
  "cell_trace h board y x = [Count x y, Assign x y (next_value h board x y)]"

definition row_trace :: "heap \<Rightarrow> board \<Rightarrow> nat \<Rightarrow> event list" where
  "row_trace h board y = concat (map (cell_trace h board y) [0..<width h board])"

definition life_trace :: "heap \<Rightarrow> board \<Rightarrow> event list" where
  "life_trace h board = concat (map (row_trace h board) [0..<length board])"

definition fresh_rows :: "heap \<Rightarrow> nat \<Rightarrow> nat \<Rightarrow> heap \<Rightarrow> bool" where
  "fresh_rows h0 n w h \<longleftrightarrow>
     length h = length h0 + n \<and>
     (\<forall>a<length h0. h ! a = h0 ! a) \<and>
     (\<forall>i<n. length (h ! (length h0 + i)) = w)"

section \<open>Sample boards\<close>

text \<open>Three rows of four cells with one live column, each row its own list object.\<close>

definition example_state :: state where
  "example_state = \<lparr>store = [[0, 1, 0, 0], [0, 1, 0, 0], [0, 1, 0, 0]], draws = 0, trace = []\<rparr>"

definition example_board :: board where
  "example_board = [0, 1, 2]"


text \<open>A board whose second row is longer than its first.\<close>

definition ragged_state :: state where
  "ragged_state = \<lparr>store = [[0], [1, 1]], draws = 0, trace = []\<rparr>"

section \<open>Moore neighbours, as the claim about \<^verbatim>\<open>count_neighbors\<close> words them\<close>

text \<open>
  The positions (column, row) of the eight neighbours of \<open>(x, y)\<close> on a torus of the
  given width and height, and the number of live cells among the distinct ones of them
  that are not \<open>(x, y)\<close> itself.
\<close>

definition moore_neighbours :: "nat \<Rightarrow> nat \<Rightarrow> int \<Rightarrow> int \<Rightarrow> (nat \<times> nat) list" where
  "moore_neighbours w n x y = map (\<lambda>(dx, dy). (wrap w (x + dx), wrap n (y + dy))) offsets"

definition live_moore_neighbours :: "heap \<Rightarrow> board \<Rightarrow> int \<Rightarrow> int \<Rightarrow> nat" where
  "live_moore_neighbours h board x y =
     length (filter (\<lambda>p. p \<noteq> (wrap (width h board) x, wrap (length board) y) \<and>
                          cell h board (snd p) (fst p) = 1)
               (remdups (moore_neighbours (width h board) (length board) x y)))"

section \<open>Reading the results\<close>

text \<open>The nested list that Python sees through a board: the rows behind its addresses.\<close>

definition board_value :: "heap \<Rightarrow> board \<Rightarrow> int list list" where
  "board_value h board = map (\<lambda>a. h ! a) board"


fun assigned :: "event \<Rightarrow> (nat \<times> nat) list" where
  "assigned (Count x y) = []"
| "assigned (Assign x y v) = [(x, y)]"

definition positions :: "nat \<Rightarrow> nat \<Rightarrow> (nat \<times> nat) list" where
  "positions w n = concat (map (\<lambda>y. map (\<lambda>x. (x, y)) [0..<w]) [0..<n])"

section \<open>Records for the layer\<close>

text \<open>
  The values that the notebooks hand to the visualization library: truth values, numbers,
  strings, lists and dictionaries. A float is modelled by the rational it approximates
  (\<^verbatim>\<open>x / 1000.0\<close> is \<open>x / 1000\<close>); no statement below depends on rounding.
\<close>

datatype pyval =
    PyNone
  | PyBool bool
  | PyInt int
  | PyFloat rat
  | PyStr string
  | PyList "pyval list"
  | PyDict "(string \<times> pyval) list"

text \<open>
  The global names that the colour expressions of \<^verbatim>\<open>convert_board_to_df\<close> look up.
  The cells of \<^verbatim>\<open>Conway's Game of Life.ipynb\<close> bind \<^verbatim>\<open>PINK\<close> and \<^verbatim>\<open>PURPLE\<close>
  (third code cell) and \<^verbatim>\<open>BLACK\<close> (last code cell); no cell binds
  \<^verbatim>\<open>TRANSPARENT\<close>. Reading an unbound name raises NameError.
\<close>

type_synonym globals = "(string \<times> pyval) list"

definition PINK :: pyval where
  "PINK = PyList [PyInt 155, PyInt 155, PyInt 255, PyInt 245]"

definition PURPLE :: pyval where
  "PURPLE = PyList [PyInt 255, PyInt 155, PyInt 255, PyInt 245]"

definition BLACK :: pyval where
  "BLACK = PyList [PyInt 0, PyInt 0, PyInt 0, PyInt 255]"

definition notebook_globals :: globals where
  "notebook_globals = [(''PINK'', PINK), (''PURPLE'', PURPLE), (''BLACK'', BLACK)]"

definition lookup_name :: "globals \<Rightarrow> string \<Rightarrow> error + pyval" where
  "lookup_name g name = (case map_of g name of None \<Rightarrow> Inl NameError | Some v \<Rightarrow> Inr v)"

text \<open>\<^verbatim>\<open>board[y][x]\<close> with indices that are not negative: no wrapping here.\<close>

definition index_cell :: "heap \<Rightarrow> board \<Rightarrow> nat \<Rightarrow> nat \<Rightarrow> error + int" where
  "index_cell h board y x =
     (if y < length board
      then (let r = h ! (board ! y) in if x < length r then Inr (r ! x) else Inl IndexError)
      else Inl IndexError)"

text \<open>
  \<^verbatim>\<open>pd.DataFrame(rows, columns=['position', 'color']).to_dict(orient='records')\<close>:
  each row \<^verbatim>\<open>[position, color]\<close> becomes a dictionary with these two keys.
\<close>

definition to_records :: "(pyval \<times> pyval) list \<Rightarrow> pyval" where
  "to_records rows =
     PyList (map (\<lambda>(position, color). PyDict [(''position'', position), (''color'', color)]) rows)"

text \<open>
  The first definition (third code cell):
  \<^verbatim>\<open>
  def convert_board_to_df(board):
      rows = []
      for x in range(0, len(board[0])):
          for y in range(0, len(board)):
              rows.append([[x / 1000.0, y / 1000.0], PURPLE if board[y][x] else PINK])
      return pd.DataFrame(rows, columns=['position', 'color']).to_dict(orient='records')
  \<close>
  A conditional expression evaluates its condition first and then only the chosen
  branch, so only one of the two names is looked up.
\<close>

definition convert_cell ::
  "globals \<Rightarrow> heap \<Rightarrow> board \<Rightarrow> nat \<Rightarrow> nat \<Rightarrow> (pyval \<times> pyval) list \<Rightarrow> error + (pyval \<times> pyval) list" where
  "convert_cell g h board x y rows =
     (let position = PyList [PyFloat (of_nat x / 1000), PyFloat (of_nat y / 1000)]
      in case index_cell h board y x of
           Inl e \<Rightarrow> Inl e
         | Inr c \<Rightarrow>
             (case lookup_name g (if c \<noteq> 0 then ''PURPLE'' else ''PINK'') of
                Inl e \<Rightarrow> Inl e
              | Inr color \<Rightarrow> Inr (rows @ [(position, color)])))"

definition convert_board_to_df :: "globals \<Rightarrow> heap \<Rightarrow> board \<Rightarrow> error + pyval" where
  "convert_board_to_df g h board =
     (if board = [] then Inl IndexError
      else case for_each [0..<length (h ! (board ! 0))]
                  (\<lambda>x. for_each [0..<length board] (convert_cell g h board x)) [] of
             Inl e \<Rightarrow> Inl e
           | Inr rows \<Rightarrow> Inr (to_records rows))"



section \<open>The visualization objects\<close>

text \<open>
  A \<^verbatim>\<open>Layer\<close>, \<^verbatim>\<open>ViewState\<close> or \<^verbatim>\<open>View\<close> object is its attribute dictionary; the
  objects live in an object store and are named by their index in it. A \<^verbatim>\<open>Deck\<close>
  holds the addresses of its layers, of its view state and of its views, as in
  \<^verbatim>\<open>Deck(layers=[layer], initial_view_state=view_state, views=[view])\<close>: the deck
  and the variable \<^verbatim>\<open>layer\<close> share the layer object.
\<close>

type_synonym obj = "(string \<times> pyval) list"

record deck =
  layers :: "nat list"
  initial_view_state :: nat
  views :: "nat list"

text \<open>Storing under a key of a dictionary: an existing key is rebound, a new one added.\<close>

fun set_item :: "string \<Rightarrow> pyval \<Rightarrow> obj \<Rightarrow> obj" where
  "set_item k v [] = [(k, v)]"
| "set_item k v ((k', v') # d) =
     (if k' = k then (k, v) # d else (k', v') # set_item k v d)"

text \<open>The attribute assignment \<^verbatim>\<open>o.name = v\<close> on the object at address \<open>a\<close>.\<close>

definition set_attr :: "obj list \<Rightarrow> nat \<Rightarrow> string \<Rightarrow> pyval \<Rightarrow> obj list" where
  "set_attr objs a name v = objs[a := set_item name v (objs ! a)]"

section \<open>The notebook sessions and their loops\<close>

text \<open>
  A session of \<^verbatim>\<open>Introduction.ipynb\<close>: the object store, the deck (the global
  variable \<^verbatim>\<open>r\<close>) and the state of the rendering widget, of any type \<open>'w\<close>.
\<close>

record 'w session =
  objects :: "obj list"
  r_var :: deck
  widget :: 'w

text \<open>
  What a cell writes to its output area: the text of \<^verbatim>\<open>print\<close> statements, and the
  calls of \<^verbatim>\<open>clear_output(wait=True)\<close>.
\<close>

datatype out_event = Print string | ClearOutput

text \<open>
  A session of \<^verbatim>\<open>Conway's Game of Life.ipynb\<close> has in addition the interpreter state,
  the global variables \<^verbatim>\<open>board\<close> and \<^verbatim>\<open>records\<close>, and the output written so far.
  \<^verbatim>\<open>time.sleep\<close> changes none of them.
\<close>

record 'w notebook = "'w session" +
  interp :: state
  board_var :: board
  records_var :: pyval
  stdout :: "out_event list"

text \<open>
  Modelled from the spec: \<^verbatim>\<open>Deck.update\<close>, which belongs to the pydeck package and
  is missing from the sources. The specification calls it a refresh call that follows the
  in-place mutation of the configuration objects: in the loops below it is a parameter
  \<open>update\<close> that reads the object store and the deck and yields the next state of the
  widget.

  The loop of \<^verbatim>\<open>Introduction.ipynb\<close>:
  \<^verbatim>\<open>
  for i in range(0, 10000, 1000):
      layer.elevation_range = [0, i]
      r.update()
      time.sleep(0.1)
  \<close>
  and the single update \<^verbatim>\<open>layer.elevation_range = [0, 1000]; r.update()\<close> before it.
\<close>

definition elevation_step ::
  "(obj list \<Rightarrow> deck \<Rightarrow> 'w \<Rightarrow> 'w) \<Rightarrow> nat \<Rightarrow> int \<Rightarrow> 'w session \<Rightarrow> error + 'w session" where
  "elevation_step update layer i ss =
     (let objs = set_attr (objects ss) layer ''elevation_range'' (PyList [PyInt 0, PyInt i])
      in Inr (ss\<lparr>objects := objs, widget := update objs (r_var ss) (widget ss)\<rparr>))"

definition elevation_loop ::
  "(obj list \<Rightarrow> deck \<Rightarrow> 'w \<Rightarrow> 'w) \<Rightarrow> nat \<Rightarrow> 'w session \<Rightarrow> error + 'w session" where
  "elevation_loop update layer ss =
     for_each (map (\<lambda>k. int k * 1000) [0..<10]) (elevation_step update layer) ss"

text \<open>
  \<^verbatim>\<open>Conway's Game of Life.ipynb\<close>, fourth code cell:
  \<^verbatim>\<open>
  NUM_ITERATIONS = 100
  for i in range(0, NUM_ITERATIONS):
      board = process_life(board)
      records = convert_board_to_df(board)
      layer.data = records
      r.update()
      time.sleep(0.1)
  \<close>
\<close>

definition NUM_ITERATIONS :: nat where
  "NUM_ITERATIONS = 100"

definition animation_step ::
  "(nat \<Rightarrow> nat) \<Rightarrow> globals \<Rightarrow> (obj list \<Rightarrow> deck \<Rightarrow> 'w \<Rightarrow> 'w) \<Rightarrow> nat \<Rightarrow> nat \<Rightarrow> 'w notebook
     \<Rightarrow> error + 'w notebook" where
  "animation_step rng g update layer i nb =
     (case process_life rng (interp nb) (board_var nb) of
        Inl e \<Rightarrow> Inl e
      | Inr (s', board') \<Rightarrow>
          (case convert_board_to_df g (store s') board' of
             Inl e \<Rightarrow> Inl e
           | Inr records \<Rightarrow>
               (let objs = set_attr (objects nb) layer ''data'' records
                in Inr (nb\<lparr>interp := s', board_var := board', records_var := records,
                          objects := objs,
                          widget := update objs (r_var nb) (widget nb)\<rparr>))))"

definition animation_loop ::
  "(nat \<Rightarrow> nat) \<Rightarrow> globals \<Rightarrow> (obj list \<Rightarrow> deck \<Rightarrow> 'w \<Rightarrow> 'w) \<Rightarrow> nat \<Rightarrow> nat \<Rightarrow> 'w notebook
     \<Rightarrow> error + 'w notebook" where
  "animation_loop rng g update layer n nb =
     for_each [0..<n] (animation_step rng g update layer) nb"

text \<open>
  Second code cell:
  \<^verbatim>\<open>
  def draw_board(board):
      for row in board:
          for col in row:
              if col == 1: print('*'),
              else:        print('-'),
          print('\n'),

  for i in range(1, 101):
      print('Iteration ' + str(i))
      board = process_life(board)
      draw_board(board)
      clear_output(wait=True)
      time.sleep(0.05)
  \<close>
  The kernel is Python 2: \<^verbatim>\<open>print x,\<close> writes a space before \<open>x\<close> unless the output
  is at the beginning of a line, so a row is written as its marks, each followed by a
  space, and a newline.
\<close>

definition newline :: string where
  "newline = [CHR 0x0A]"

function str :: "nat \<Rightarrow> string" where
  "str n = (if n < 10 then [''0123456789'' ! n] else str (n div 10) @ [''0123456789'' ! (n mod 10)])"
  by pat_completeness auto
termination
  by (relation "measure id") auto

definition draw_row :: "int list \<Rightarrow> string" where
  "draw_row row = concat (map (\<lambda>col. if col = 1 then ''* '' else ''- '') row) @ newline"

definition draw_board :: "heap \<Rightarrow> board \<Rightarrow> string" where
  "draw_board h board = concat (map (\<lambda>a. draw_row (h ! a)) board)"

definition text_step :: "(nat \<Rightarrow> nat) \<Rightarrow> nat \<Rightarrow> 'w notebook \<Rightarrow> error + 'w notebook" where
  "text_step rng i nb =
     (let out = stdout nb @ [Print (''Iteration '' @ str i @ newline)]
      in case process_life rng (interp nb) (board_var nb) of
           Inl e \<Rightarrow> Inl e
         | Inr (s', board') \<Rightarrow>
             Inr (nb\<lparr>interp := s', board_var := board',
                    stdout := out @ [Print (draw_board (store s') board'), ClearOutput]\<rparr>))"

definition text_loop :: "(nat \<Rightarrow> nat) \<Rightarrow> nat \<Rightarrow> 'w notebook \<Rightarrow> error + 'w notebook" where
  "text_loop rng n nb = for_each [1..<Suc n] (text_step rng) nb"

section \<open>Generations as values\<close>

text \<open>
  The \<open>k\<close>-fold application of \<^verbatim>\<open>process_life\<close>, each call on the board and in the
  state that the call before it returned; and one generation as a function of the nested
  list alone.
\<close>

fun iterate_life :: "(nat \<Rightarrow> nat) \<Rightarrow> nat \<Rightarrow> state \<Rightarrow> board \<Rightarrow> error + state \<times> board" where
  "iterate_life rng 0 s board = Inr (s, board)"
| "iterate_life rng (Suc k) s board =
     (case iterate_life rng k s board of
        Inl e \<Rightarrow> Inl e
      | Inr (s', board') \<Rightarrow> process_life rng s' board')"

definition generation :: "int list list \<Rightarrow> int list list" where
  "generation rows = next_rows rows [0..<length rows]"

text \<open>
  A session of \<^verbatim>\<open>Conway's Game of Life.ipynb\<close> on the sample board, with the point
  cloud layer of the third code cell. Its widget keeps the object stores it was shown.
\<close>

definition example_notebook :: "(obj list) list notebook" where
  "example_notebook =
     \<lparr>objects = [[(''type'', PyStr ''PointCloudLayer''), (''data'', PyList []),
                  (''get_position'', PyStr ''position''), (''get_color'', PyStr ''color''),
                  (''get_radius'', PyInt 40)]],
      r_var = \<lparr>layers = [0], initial_view_state = 1, views = []\<rparr>,
      widget = [],
      interp = example_state, board_var = example_board, records_var = PyList [],
      stdout = []\<rparr>"

text \<open>
  A session with the layer and the view state of the second code cell of
  \<^verbatim>\<open>Introduction.ipynb\<close>, before its updates.
\<close>

definition data_url :: string where
  "data_url = ''https://raw.githubusercontent.com/uber-common/deck.gl-data/master/examples/3d-heatmap/heatmap-data.csv''"

definition example_session :: "(obj list) list session" where
  "example_session =
     \<lparr>objects =
        [[(''type'', PyStr ''HexagonLayer''), (''data'', PyStr data_url),
          (''elevation_scale'', PyInt 50),
          (''elevation_range'', PyList [PyInt 0, PyInt 3000]),
          (''extruded'', PyBool True), (''coverage'', PyInt 1)],
         [(''longitude'', PyFloat (- 1415 / 1000)), (''latitude'', PyFloat (522323 / 10000)),
          (''zoom'', PyFloat (66 / 10)), (''min_zoom'', PyInt 5), (''max_zoom'', PyInt 15),
          (''pitch'', PyFloat (405 / 10)), (''bearing'', PyFloat (- 27396 / 1000))]],
      r_var = \<lparr>layers = [0], initial_view_state = 1, views = []\<rparr>,
      widget = []\<rparr>"

section \<open>The JSON specification of a deck\<close>

text \<open>
  Modelled from the spec: the constructor \<^verbatim>\<open>pydeck.Layer\<close>; the pydeck package is
  missing from the sources, which hold only calls such as
  \<^verbatim>\<open>Layer('HexagonLayer', data, elevation_scale=50, ...)\<close> and the later assignments
  \<^verbatim>\<open>layer.data = ...\<close> and \<^verbatim>\<open>layer.elevation_range = ...\<close>. The specification
  (section 6) speaks of "layer descriptors with a type tag and free-form property bag":
  a layer object keeps its type under the attribute \<^verbatim>\<open>type\<close>, its data under
  \<^verbatim>\<open>data\<close> and each keyword argument under its own name.
\<close>

definition Layer :: "string \<Rightarrow> pyval \<Rightarrow> obj \<Rightarrow> obj" where
  "Layer type data kwargs = (''type'', PyStr type) # (''data'', data) # kwargs"

text \<open>
  Modelled from the spec: the type tag of a layer descriptor, missing from the sources
  with the serializer: the value of the attribute \<^verbatim>\<open>type\<close>.
\<close>

definition type_tag :: "obj \<Rightarrow> pyval" where
  "type_tag l = (case map_of l ''type'' of None \<Rightarrow> PyNone | Some t \<Rightarrow> t)"

text \<open>
  Modelled from the spec: the free-form property bag of a layer descriptor, missing from
  the sources with the serializer: all attributes of the layer but its type.
\<close>

definition property_bag :: "obj \<Rightarrow> obj" where
  "property_bag l = filter (\<lambda>kv. fst kv \<noteq> ''type'') l"

text \<open>
  Modelled from the spec: a layer descriptor, missing from the sources with the
  serializer: an object with the type tag and the property bag.
\<close>

definition layer_descriptor :: "obj \<Rightarrow> pyval" where
  "layer_descriptor l = PyDict ((''type'', type_tag l) # property_bag l)"

text \<open>
  Modelled from the spec: the serializer of \<^verbatim>\<open>pydeck.Deck\<close>, whose result
  \<^verbatim>\<open>Deck.update\<close> and \<^verbatim>\<open>Deck.show\<close> hand to the rendering widget; it is missing
  from the sources, which hold only the saved output
  \<^verbatim>\<open>DeckGLWidget(json_input=u'{"initialViewState": {"bearing": 44, ...\<close>.
  The specification (section 6) gives the shape: "an object with keys such as
  \<^verbatim>\<open>initialViewState\<close>, \<^verbatim>\<open>layers\<close> (list of layer descriptors with a type tag and
  free-form property bag), and \<^verbatim>\<open>views\<close>".
\<close>

definition to_json :: "obj list \<Rightarrow> deck \<Rightarrow> pyval" where
  "to_json objs d =
     PyDict [(''initialViewState'', PyDict (objs ! initial_view_state d)),
             (''layers'', PyList (map (\<lambda>a. layer_descriptor (objs ! a)) (layers d))),
             (''views'', PyList (map (\<lambda>a. PyDict (objs ! a)) (views d)))]"

text \<open>
  Modelled from the spec: \<^verbatim>\<open>Deck.update\<close> with this serializer, missing from the
  sources: the refresh leaves in the widget the specification of the deck as it is now.
\<close>

definition send_json :: "obj list \<Rightarrow> deck \<Rightarrow> pyval \<Rightarrow> pyval" where
  "send_json objs d w = to_json objs d"

text \<open>
  The objects of the last code cell of \<^verbatim>\<open>Introduction.ipynb\<close>: the hexagon layer with
  the light settings assigned to it, the view state and the map view, and the deck made
  of them.
  \<^verbatim>\<open>
  layer = pdk.Layer('HexagonLayer', 'https://.../heatmap-data.csv', elevation_scale=50,
                    elevation_range=[0, 3000], extruded=True, coverage=1)
  lights = pdk.LightSettings(lights_position=[-0.144528, 49.739968, 8000,
                                              -3.807751, 54.104682, 10000],
                             ambient_ratio=0.7, diffuse_ratio=0.6)
  layer.light_settings = lights
  view_state = pdk.ViewState(longitude=-1.415, latitude=52.2323, zoom=6.6, min_zoom=5,
                             max_zoom=15, pitch=40.5, bearing=-27.396)
  view = pdk.View('MapView', True)
  r = pdk.Deck(layers=[layer], initial_view_state=view_state, views=[view])
  \<close>
\<close>

definition lights :: pyval where
  "lights =
     PyDict [(''lights_position'',
              PyList [PyFloat (- 144528 / 1000000), PyFloat (49739968 / 1000000), PyInt 8000,
                      PyFloat (- 3807751 / 1000000), PyFloat (54104682 / 1000000), PyInt 10000]),
             (''ambient_ratio'', PyFloat (7 / 10)),
             (''diffuse_ratio'', PyFloat (6 / 10))]"

definition intro_objects :: "obj list" where
  "intro_objects =
     set_attr
       [Layer ''HexagonLayer'' (PyStr data_url)
          [(''elevation_scale'', PyInt 50),
           (''elevation_range'', PyList [PyInt 0, PyInt 3000]),
           (''extruded'', PyBool True),
           (''coverage'', PyInt 1)],
        [(''longitude'', PyFloat (- 1415 / 1000)), (''latitude'', PyFloat (522323 / 10000)),
         (''zoom'', PyFloat (66 / 10)), (''min_zoom'', PyInt 5), (''max_zoom'', PyInt 15),
         (''pitch'', PyFloat (405 / 10)), (''bearing'', PyFloat (- 27396 / 1000))],
        [(''type'', PyStr ''MapView''), (''controller'', PyBool True)]]
       0 ''light_settings'' lights"

definition intro_deck :: deck where
  "intro_deck = \<lparr>layers = [0], initial_view_state = 1, views = [2]\<rparr>"

section \<open>Two runs side by side\<close>

text \<open>
  Two runs of the loops of \<^verbatim>\<open>process_life\<close> side by side, both on new rows of
  length \<open>w\<close> behind the store \<open>h0\<close>. \<open>reads_ok\<close> says that the reads of the left
  neighbour of \<open>(0, y)\<close> and of the cell below it do not raise. \<open>lockstep y x\<close> holds
  when rows below \<open>y\<close> are done and row \<open>y\<close> is done up to \<open>x\<close>: the two stores
  agree in every slot assigned so far, and the reads were made wherever a row has a cell.
\<close>

definition reads_ok :: "heap \<Rightarrow> board \<Rightarrow> nat \<Rightarrow> bool" where
  "reads_ok h0 board y \<longleftrightarrow>
     (\<exists>v. get h0 board (- 1) (int y) = Inr v) \<and> (\<exists>v. get h0 board 0 (int y + 1) = Inr v)"

definition lockstep :: "heap \<Rightarrow> board \<Rightarrow> nat \<Rightarrow> nat \<Rightarrow> nat \<Rightarrow> state \<Rightarrow> state \<Rightarrow> bool" where
  "lockstep h0 board w y x t1 t2 \<longleftrightarrow>
     fresh_rows h0 (length board) w (store t1) \<and>
     fresh_rows h0 (length board) w (store t2) \<and>
     (\<forall>y'<y. \<forall>x'<length (h0 ! (board ! y')).
        store t1 ! (length h0 + y') ! (x' mod w) = store t2 ! (length h0 + y') ! (x' mod w)) \<and>
     (\<forall>x'<x. store t1 ! (length h0 + y) ! (x' mod w) = store t2 ! (length h0 + y) ! (x' mod w)) \<and>
     (\<forall>y'<y. 0 < length (h0 ! (board ! y')) \<longrightarrow> reads_ok h0 board y') \<and>
     (0 < x \<longrightarrow> reads_ok h0 board y)"

section \<open>Basic facts\<close>

lemma wrap_less: "0 < n \<Longrightarrow> wrap n k < n"
  by (simp add: wrap_def nat_less_iff)

lemma rectangular_row:
  assumes "rectangular h board" and "i < length board"
  shows "board ! i < length h" and "length (h ! (board ! i)) = width h board"
  using assms by (auto simp: rectangular_def list_all_length)

lemma get_rectangular:
  assumes "rectangular h board"
  shows "get h board x y =
           Inr (cell h board (wrap (length board) y) (wrap (width h board) x))"
proof -
  have ne: "0 < length board" and w: "0 < width h board"
    using assms by (auto simp: rectangular_def)
  have i: "wrap (length board) y < length board" using ne by (rule wrap_less)
  have j: "wrap (width h board) x < width h board" using w by (rule wrap_less)
  have len: "length (h ! (board ! wrap (length board) y)) = width h board"
    using rectangular_row(2) [OF assms i] .
  show ?thesis
    using ne w j len by (simp add: get_def Let_def cell_def wrap_def width_def)
qed

lemma for_each_append:
  "for_each (xs @ ys) body s =
     (case for_each xs body s of Inl e \<Rightarrow> Inl e | Inr s' \<Rightarrow> for_each ys body s')"
  by (induction xs arbitrary: s) (auto split: sum.splits)

lemma for_each_invariant:
  assumes "P 0 s"
    and "\<And>i t. i < n \<Longrightarrow> P i t \<Longrightarrow> \<exists>t'. body i t = Inr t' \<and> P (Suc i) t'"
  shows "\<exists>s'. for_each [0..<n] body s = Inr s' \<and> P n s'"
  using assms(2)
proof (induction n)
  case 0
  then show ?case using assms(1) by simp
next
  case (Suc n)
  have "\<exists>s'. for_each [0..<n] body s = Inr s' \<and> P n s'"
    using Suc.IH Suc.prems by (meson less_Suc_eq)
  then obtain s1 where s1: "for_each [0..<n] body s = Inr s1" "P n s1" by blast
  obtain s2 where s2: "body n s1 = Inr s2" "P (Suc n) s2"
    using Suc.prems [of n s1] s1(2) by blast
  show ?case using s1 s2 by (simp add: for_each_append)
qed

lemma sequence_res_Inr: "sequence_res (map Inr xs) = Inr xs"
  by (induction xs) auto

lemma new_row_ok:
  assumes "0 < nat num_dead_cells + nat num_live_cells"
  shows "\<exists>r. new_row rng x num_live_cells num_dead_cells k = Inr r \<and> length r = nat x"
proof -
  let ?seq = "replicate (nat num_dead_cells) (0::int) @ replicate (nat num_live_cells) 1"
  have ne: "?seq \<noteq> []" using assms by auto
  have "map (\<lambda>i. choice (rng (k + i)) ?seq) [0..<nat x]
          = map Inr (map (\<lambda>i. ?seq ! (rng (k + i) mod length ?seq)) [0..<nat x])"
    using ne by (simp add: choice_def)
  then show ?thesis
    unfolding new_row_def by (simp only: sequence_res_Inr) simp
qed

lemma new_board_ok:
  assumes "0 < nat num_dead_cells + nat num_live_cells"
  shows "\<exists>s'. new_board rng s (int w) (int n) num_live_cells num_dead_cells
                = Inr (s', [length (store s)..<length (store s) + n]) \<and>
              fresh_rows (store s) n w (store s') \<and>
              draws s' = draws s + n * w \<and> trace s' = trace s"
proof -
  let ?P = "\<lambda>i sb. snd sb = [length (store s)..<length (store s) + i] \<and>
                    fresh_rows (store s) i w (store (fst sb)) \<and>
                    draws (fst sb) = draws s + i * w \<and> trace (fst sb) = trace s"
  have init: "?P 0 (s, [])" by (simp add: fresh_rows_def)
  have step: "\<exists>t'. new_board_step rng (int w) num_live_cells num_dead_cells i t = Inr t' \<and> ?P (Suc i) t'"
    if "i < n" "?P i t" for i t
  proof -
    obtain s1 b1 where t: "t = (s1, b1)" by (cases t)
    obtain r where r: "new_row rng (int w) num_live_cells num_dead_cells (draws s1) = Inr r"
      "length r = w"
      using new_row_ok [OF assms, of rng "int w" "draws s1"] by auto
    have fr: "fresh_rows (store s) i w (store s1)" using that(2) t by simp
    have "fresh_rows (store s) (Suc i) w (store s1 @ [r])"
      using fr r(2) by (auto simp: fresh_rows_def nth_append less_Suc_eq)
    moreover have "length (store s1) = length (store s) + i"
      using fr by (simp add: fresh_rows_def)
    ultimately show ?thesis
      using that(2) t r by (simp add: new_board_step_def)
  qed
  have "\<exists>sb. for_each [0..<n] (new_board_step rng (int w) num_live_cells num_dead_cells) (s, []) = Inr sb \<and> ?P n sb"
    by (rule for_each_invariant [where P = ?P]) (use init step in blast)+
  then obtain sb where "for_each [0..<n] (new_board_step rng (int w) num_live_cells num_dead_cells) (s, []) = Inr sb"
    "?P n sb" by blast
  then show ?thesis
    unfolding new_board_def by (cases sb) simp
qed

lemma wrap_id: "k < n \<Longrightarrow> wrap n (int k) = k"
  by (simp add: wrap_def)

lemma count_neighbors_rectangular:
  assumes "rectangular h board"
  shows "count_neighbors h board x y = Inr (neighbor_sum h board x y)"
  by (simp add: count_neighbors_def get_rectangular [OF assms] neighbor_sum_def offsets_def)

lemma get_fresh:
  assumes "rectangular h0 board" and "fresh_rows h0 n w h"
  shows "get h board x y = get h0 board x y"
proof (cases "board = []")
  case True
  then show ?thesis by (simp add: get_def)
next
  case False
  have same: "h ! (board ! i) = h0 ! (board ! i)" if "i < length board" for i
    using rectangular_row(1) [OF assms(1) that] assms(2) by (simp add: fresh_rows_def)
  have i: "nat (y mod int (length board)) < length board"
    using False by (simp add: nat_less_iff)
  show ?thesis
    using False same [OF i] same [of 0] by (simp add: get_def)
qed

lemma count_neighbors_fresh:
  assumes "rectangular h0 board" and "fresh_rows h0 n w h"
  shows "count_neighbors h board x y = count_neighbors h0 board x y"
  by (simp add: count_neighbors_def get_fresh [OF assms])

lemma assign_fresh:
  assumes fr: "fresh_rows h0 n w h" and x: "x < w" and y: "y < n"
  shows "assign h [length h0..<length h0 + n] (int x) (int y) v
           = Inr (h[length h0 + y := (h ! (length h0 + y))[x := v]])"
proof -
  have n: "0 < n" using y by simp
  have "\<forall>i<n. length (h ! (length h0 + i)) = w" using fr by (simp add: fresh_rows_def)
  from this [rule_format, OF n] have w0: "length (h ! length h0) = w" by simp
  have wy: "length (h ! (length h0 + y)) = w" using fr y by (simp add: fresh_rows_def)
  show ?thesis
    using n x y w0 wy by (simp add: assign_def Let_def)
qed

lemma fresh_rows_update:
  assumes "fresh_rows h0 n w h" and "y < n"
  shows "fresh_rows h0 n w (h[length h0 + y := (h ! (length h0 + y))[x := v]])"
  using assms by (auto simp: fresh_rows_def nth_list_update)

lemma process_cell_fresh:
  assumes rect: "rectangular h0 board"
    and fr: "fresh_rows h0 (length board) (width h0 board) (store t)"
    and x: "x < width h0 board" and y: "y < length board"
  shows "process_cell board [length h0..<length h0 + length board] y x t =
           Inr (t\<lparr>store := (store t)[length h0 + y :=
                               (store t ! (length h0 + y))[x := next_value h0 board x y]],
                  trace := trace t @ cell_trace h0 board y x\<rparr>)"
proof -
  have c: "count_neighbors (store t) board (int x) (int y)
             = Inr (neighbor_sum h0 board (int x) (int y))"
    by (simp add: count_neighbors_fresh [OF rect fr] count_neighbors_rectangular [OF rect])
  have g: "get (store t) board (int x) (int y) = Inr (cell h0 board y x)"
    by (simp add: get_fresh [OF rect fr] get_rectangular [OF rect] wrap_id x y)
  show ?thesis
    by (simp add: process_cell_def c g Let_def assign_fresh [OF fr x y]
          next_value_def cell_trace_def)
qed

lemma process_row_fresh:
  assumes rect: "rectangular h0 board"
    and fr: "fresh_rows h0 (length board) (width h0 board) (store t)"
    and y: "y < length board"
  shows "\<exists>t'. process_row board [length h0..<length h0 + length board] y t = Inr t' \<and>
           fresh_rows h0 (length board) (width h0 board) (store t') \<and>
           (\<forall>i<length board. i \<noteq> y \<longrightarrow>
               store t' ! (length h0 + i) = store t ! (length h0 + i)) \<and>
           store t' ! (length h0 + y)
             = map (\<lambda>x. next_value h0 board x y) [0..<width h0 board] \<and>
           draws t' = draws t \<and>
           trace t' = trace t @ row_trace h0 board y"
proof -
  let ?L = "length h0" and ?H = "length board" and ?W = "width h0 board"
  let ?R = "\<lambda>x u. fresh_rows h0 ?H ?W (store u) \<and>
              (\<forall>i<?H. i \<noteq> y \<longrightarrow> store u ! (?L + i) = store t ! (?L + i)) \<and>
              (\<forall>j<x. store u ! (?L + y) ! j = next_value h0 board j y) \<and>
              draws u = draws t \<and>
              trace u = trace t @ concat (map (cell_trace h0 board y) [0..<x])"
  have bound: "length (store t ! (board ! y)) = ?W"
    using rectangular_row [OF rect y] fr by (simp add: fresh_rows_def)
  have init: "?R 0 t" using fr by simp
  have step: "\<exists>u'. process_cell board [?L..<?L + ?H] y x u = Inr u' \<and> ?R (Suc x) u'"
    if "x < ?W" "?R x u" for x u
  proof -
    have fru: "fresh_rows h0 ?H ?W (store u)" using that(2) by simp
    have len: "length (store u) = ?L + ?H" "length (store u ! (?L + y)) = ?W"
      using fru y by (simp_all add: fresh_rows_def)
    let ?u' = "u\<lparr>store := (store u)[?L + y :=
                               (store u ! (?L + y))[x := next_value h0 board x y]],
                  trace := trace u @ cell_trace h0 board y x\<rparr>"
    have "process_cell board [?L..<?L + ?H] y x u = Inr ?u'"
      by (rule process_cell_fresh [OF rect fru that(1) y])
    moreover have "?R (Suc x) ?u'"
      using that fresh_rows_update [OF fru y] len y
      by (auto simp: nth_list_update less_Suc_eq)
    ultimately show ?thesis by blast
  qed
  have "\<exists>t'. for_each [0..<?W] (process_cell board [?L..<?L + ?H] y) t = Inr t' \<and> ?R ?W t'"
    by (rule for_each_invariant [where P = ?R]) (use init step in blast)+
  then obtain t' where t': "for_each [0..<?W] (process_cell board [?L..<?L + ?H] y) t = Inr t'"
    and R: "?R ?W t'" by blast
  have "length (store t' ! (?L + y)) = ?W"
    using R y by (simp add: fresh_rows_def)
  then have row: "store t' ! (?L + y) = map (\<lambda>x. next_value h0 board x y) [0..<?W]"
    using R by (intro nth_equalityI) simp_all
  show ?thesis
    using t' R row by (simp add: process_row_def bound row_trace_def)
qed

lemma process_life_rectangular:
  assumes rect: "rectangular (store s) board"
  shows "process_life rng s board =
           Inr (s\<lparr>store := store s @ next_rows (store s) board,
                  draws := draws s + length board * width (store s) board,
                  trace := trace s @ life_trace (store s) board\<rparr>,
                [length (store s)..<length (store s) + length board])"
proof -
  let ?h0 = "store s"
  let ?L = "length ?h0" and ?H = "length board" and ?W = "width ?h0 board"
  let ?nb = "[?L..<?L + ?H]"
  have ne: "board \<noteq> []" using rect by (simp add: rectangular_def)
  obtain s1 where nb: "new_board rng s (int ?W) (int ?H) 2 3 = Inr (s1, ?nb)"
    and fr1: "fresh_rows ?h0 ?H ?W (store s1)"
    and d1: "draws s1 = draws s + ?H * ?W" and t1: "trace s1 = trace s"
    using new_board_ok [of 3 2 rng s ?W ?H] by auto
  let ?Q = "\<lambda>y t. fresh_rows ?h0 ?H ?W (store t) \<and>
              (\<forall>i<y. store t ! (?L + i) = map (\<lambda>x. next_value ?h0 board x i) [0..<?W]) \<and>
              draws t = draws s1 \<and>
              trace t = trace s @ concat (map (row_trace ?h0 board) [0..<y])"
  have init: "?Q 0 s1" using fr1 t1 by simp
  have step: "\<exists>t'. process_row board ?nb y t = Inr t' \<and> ?Q (Suc y) t'"
    if "y < ?H" "?Q y t" for y t
  proof -
    have frt: "fresh_rows ?h0 ?H ?W (store t)" using that(2) by simp
    from process_row_fresh [OF rect frt that(1)]
    obtain t' where t': "process_row board ?nb y t = Inr t'"
      "fresh_rows ?h0 ?H ?W (store t')"
      "\<forall>i<?H. i \<noteq> y \<longrightarrow> store t' ! (?L + i) = store t ! (?L + i)"
      "store t' ! (?L + y) = map (\<lambda>x. next_value ?h0 board x y) [0..<?W]"
      "draws t' = draws t" "trace t' = trace t @ row_trace ?h0 board y"
      by blast
    have "?Q (Suc y) t'"
      using t'(2-6) that by (auto simp: less_Suc_eq)
    then show ?thesis using t'(1) by blast
  qed
  have "\<exists>t'. for_each [0..<?H] (process_row board ?nb) s1 = Inr t' \<and> ?Q ?H t'"
    by (rule for_each_invariant [where P = ?Q]) (use init step in blast)+
  then obtain s2 where s2: "for_each [0..<?H] (process_row board ?nb) s1 = Inr s2"
    and Q: "?Q ?H s2" by blast
  have st: "store s2 = ?h0 @ next_rows ?h0 board"
  proof (rule nth_equalityI)
    show "length (store s2) = length (?h0 @ next_rows ?h0 board)"
      using Q by (simp add: fresh_rows_def next_rows_def)
  next
    fix a assume a: "a < length (store s2)"
    have len: "length (store s2) = ?L + ?H" using Q by (simp add: fresh_rows_def)
    show "store s2 ! a = (?h0 @ next_rows ?h0 board) ! a"
    proof (cases "a < ?L")
      case True
      then show ?thesis using Q by (simp add: fresh_rows_def nth_append)
    next
      case False
      then obtain i where i: "a = ?L + i" "i < ?H"
        using a len by (metis add_diff_inverse_nat nat_add_left_cancel_less)
      then show ?thesis using Q by (simp add: nth_append next_rows_def)
    qed
  qed
  have "s2 = s\<lparr>store := ?h0 @ next_rows ?h0 board,
                draws := draws s + ?H * ?W,
                trace := trace s @ life_trace ?h0 board\<rparr>"
    using st Q d1 by (simp add: life_trace_def)
  then show ?thesis
    using ne nb s2 by (simp add: process_life_def width_def)
qed

section \<open>One generation on a rectangular board\<close>

lemma rectangular_cell_binary:
  assumes "rectangular h board" and "binary h board" and "i < length board" and "j < width h board"
  shows "cell h board i j = 0 \<or> cell h board i j = 1"
proof -
  have "j < length (h ! (board ! i))" using rectangular_row(2) [OF assms(1,3)] assms(4) by simp
  moreover have "list_all (\<lambda>c. c = 0 \<or> c = 1) (h ! (board ! i))"
    using assms(2,3) by (simp add: binary_def list_all_length)
  ultimately show ?thesis by (simp add: cell_def list_all_length)
qed

lemma next_rows_cell:
  assumes "x < width h board" and "y < length board"
  shows "cell (h @ next_rows h board) [length h..<length h + length board] y x
           = next_value h board x y"
  using assms by (simp add: cell_def next_rows_def nth_append)

lemma next_rows_rectangular:
  assumes "rectangular h board"
  shows "rectangular (h @ next_rows h board) [length h..<length h + length board]"
    and "width (h @ next_rows h board) [length h..<length h + length board] = width h board"
proof -
  have ne: "0 < length board" and w: "0 < width h board"
    using assms by (auto simp: rectangular_def)
  show w': "width (h @ next_rows h board) [length h..<length h + length board] = width h board"
    using ne by (simp add: width_def next_rows_def nth_append)
  show "rectangular (h @ next_rows h board) [length h..<length h + length board]"
    unfolding rectangular_def w'
    using ne w by (auto simp: list_all_length next_rows_def nth_append)
qed

lemma rule_value_binary: "rule_value n b = 0 \<or> rule_value n b = 1"
  by (simp add: rule_value_def)

text \<open>
  Claim C1. On a non-empty rectangular board of cells 0 and 1, \<^verbatim>\<open>process_life\<close>
  returns a board whose cell at \<open>(x, y)\<close> follows the four rules with respect to
  \<open>n = count_neighbors(board, x, y)\<close> and the old cell \<open>c = get(board, x, y)\<close>:
  a live cell with \<open>n < 2\<close> dies, a live cell with \<open>n\<close> equal to 2 or 3 lives on,
  a live cell with \<open>n > 3\<close> dies, a dead cell with \<open>n = 3\<close> becomes alive, and
  in every other case the new cell is 0.
\<close>

theorem process_life_rules:
  assumes "rectangular (store s) board" and "binary (store s) board"
    and "x < width (store s) board" and "y < length board"
  shows "\<exists>s' next_board n c.
           process_life rng s board = Inr (s', next_board) \<and>
           count_neighbors (store s) board (int x) (int y) = Inr n \<and>
           get (store s) board (int x) (int y) = Inr c \<and>
           (c = 0 \<or> c = 1) \<and>
           (c = 1 \<and> n < 2 \<longrightarrow> cell (store s') next_board y x = 0) \<and>
           (c = 1 \<and> (n = 2 \<or> n = 3) \<longrightarrow> cell (store s') next_board y x = 1) \<and>
           (c = 1 \<and> 3 < n \<longrightarrow> cell (store s') next_board y x = 0) \<and>
           (c = 0 \<and> n = 3 \<longrightarrow> cell (store s') next_board y x = 1) \<and>
           (c = 0 \<and> n \<noteq> 3 \<longrightarrow> cell (store s') next_board y x = 0)"
proof -
  let ?h = "store s"
  let ?n = "neighbor_sum ?h board (int x) (int y)" and ?c = "cell ?h board y x"
  have c: "?c = 0 \<or> ?c = 1"
    by (rule rectangular_cell_binary [OF assms(1,2,4,3)])
  have v: "cell (?h @ next_rows ?h board) [length ?h..<length ?h + length board] y x
             = rule_value ?n (?c = 1)"
    by (simp add: next_rows_cell [OF assms(3,4)] next_value_def)
  have g: "get ?h board (int x) (int y) = Inr ?c"
    by (simp add: get_rectangular [OF assms(1)] wrap_id assms(3,4))
  show ?thesis
    unfolding process_life_rectangular [OF assms(1)] count_neighbors_rectangular [OF assms(1)] g
    using c by (auto simp: v rule_value_def)
qed

theorem process_life_rules_witness:
  "rectangular (store example_state) example_board \<and> binary (store example_state) example_board \<and>
   count_neighbors (store example_state) example_board 1 1 = Inr 2 \<and>
   get (store example_state) example_board 1 1 = Inr 1 \<and>
   (\<exists>s' next_board. process_life (\<lambda>k. k) example_state example_board = Inr (s', next_board) \<and>
       cell (store s') next_board 1 1 = 1)"
proof -
  have r: "rectangular (store example_state) example_board"
    by (simp add: rectangular_def example_state_def example_board_def width_def)
  have b: "binary (store example_state) example_board"
    by (simp add: binary_def example_state_def example_board_def)
  have w: "(1::nat) < width (store example_state) example_board" "(1::nat) < length example_board"
    by (simp_all add: example_state_def example_board_def width_def)
  have n: "count_neighbors (store example_state) example_board 1 1 = Inr 2"
    by (simp add: count_neighbors_def get_def example_state_def example_board_def)
  have c: "get (store example_state) example_board 1 1 = Inr 1"
    by (simp add: get_def example_state_def example_board_def)
  show ?thesis
    using r b n c process_life_rules [OF r b w, of "\<lambda>k. k"] by auto
qed

section \<open>Wrapping at the edges\<close>

lemma wrap_int: "0 < n \<Longrightarrow> int (wrap n k) = k mod int n"
  by (simp add: wrap_def)

lemma wrap_edges:
  assumes "0 < n"
  shows "wrap n (- 1) = n - 1" and "wrap n (int n) = 0"
proof -
  have "(- 1) mod int n = int n - 1"
    using assms by (simp add: zmod_minus1)
  then show "wrap n (- 1) = n - 1" using assms by (simp add: wrap_def)
  show "wrap n (int n) = 0" by (simp add: wrap_def)
qed

lemma assign_rectangular:
  assumes "rectangular h board"
  shows "assign h board x y v =
           Inr (h[board ! wrap (length board) y :=
                    (h ! (board ! wrap (length board) y))[wrap (width h board) x := v]])"
proof -
  have ne: "0 < length board" and w: "0 < width h board"
    using assms by (auto simp: rectangular_def)
  have i: "wrap (length board) y < length board" using ne by (rule wrap_less)
  have j: "wrap (width h board) x < width h board" using w by (rule wrap_less)
  have len: "length (h ! (board ! wrap (length board) y)) = width h board"
    using rectangular_row(2) [OF assms i] .
  show ?thesis
    using ne w j len by (simp add: assign_def Let_def wrap_def width_def)
qed

lemma update_rectangular:
  assumes rect: "rectangular h board" and i: "i < length board"
  shows "rectangular (h[board ! i := (h ! (board ! i))[j := v]]) board"
    and "width (h[board ! i := (h ! (board ! i))[j := v]]) board = width h board"
proof -
  let ?h' = "h[board ! i := (h ! (board ! i))[j := v]]"
  have ne: "0 < length board" using i by (cases board) simp_all
  have len: "length (?h' ! (board ! k)) = length (h ! (board ! k))" if "k < length board" for k
    using rectangular_row(1) [OF rect i] by (cases "board ! k = board ! i") simp_all
  show w: "width ?h' board = width h board"
    using len [OF ne] by (simp add: width_def)
  show "rectangular ?h' board"
    unfolding rectangular_def w
    using rect len by (auto simp: rectangular_def list_all_length)
qed

text \<open>
  A board needs a column for the wrap to be defined: on rows of length 0 the remainder
  \<^verbatim>\<open>x % len(board[0])\<close> raises.
\<close>

lemma get_zero_width:
  assumes "board \<noteq> []" and "width h board = 0"
  shows "get h board x y = Inl ZeroDivisionError"
    and "assign h board x y v = Inl ZeroDivisionError"
  using assms by (simp_all add: get_def assign_def width_def Let_def)

text \<open>
  Claim C2. On a non-empty rectangular board and for all integers \<open>x\<close> and \<open>y\<close>,
  \<^verbatim>\<open>get\<close> returns \<^verbatim>\<open>board[y mod height][x mod width]\<close>, and \<^verbatim>\<open>assign\<close> stores the
  value into that slot of that row object and changes nothing else in the store, so that
  a following \<^verbatim>\<open>get\<close> at \<open>(x, y)\<close> returns it. Hence \<^verbatim>\<open>count_neighbors\<close> reads the
  eight wrapped positions: column \<open>-1\<close> is the last column, column \<open>width\<close> is column 0,
  and likewise for the rows.
\<close>

theorem toroidal_wrap:
  assumes "rectangular h board"
  shows "int (wrap (length board) y) = y mod int (length board) \<and>
         int (wrap (width h board) x) = x mod int (width h board) \<and>
         wrap (length board) y < length board \<and>
         wrap (width h board) x < width h board \<and>
         get h board x y = Inr (cell h board (wrap (length board) y) (wrap (width h board) x)) \<and>
         assign h board x y v =
           Inr (h[board ! wrap (length board) y :=
                    (h ! (board ! wrap (length board) y))[wrap (width h board) x := v]]) \<and>
         (\<forall>h'. assign h board x y v = Inr h' \<longrightarrow>
            length h' = length h \<and> rectangular h' board \<and> width h' board = width h board \<and>
            get h' board x y = Inr v \<and>
            (\<forall>a j. a \<noteq> board ! wrap (length board) y \<or> j \<noteq> wrap (width h board) x \<longrightarrow>
                h' ! a ! j = h ! a ! j)) \<and>
         count_neighbors h board x y =
           Inr (cell h board (wrap (length board) y) (wrap (width h board) (x - 1)) +
                cell h board (wrap (length board) y) (wrap (width h board) (x + 1)) +
                cell h board (wrap (length board) (y - 1)) (wrap (width h board) x) +
                cell h board (wrap (length board) (y + 1)) (wrap (width h board) x) +
                cell h board (wrap (length board) (y + 1)) (wrap (width h board) (x + 1)) +
                cell h board (wrap (length board) (y - 1)) (wrap (width h board) (x + 1)) +
                cell h board (wrap (length board) (y + 1)) (wrap (width h board) (x - 1)) +
                cell h board (wrap (length board) (y - 1)) (wrap (width h board) (x - 1))) \<and>
         wrap (width h board) (- 1) = width h board - 1 \<and>
         wrap (width h board) (int (width h board)) = 0 \<and>
         wrap (length board) (- 1) = length board - 1 \<and>
         wrap (length board) (int (length board)) = 0"
proof -
  let ?H = "length board" and ?W = "width h board"
  let ?a = "board ! wrap ?H y" and ?j = "wrap ?W x"
  let ?h' = "h[?a := (h ! ?a)[?j := v]]"
  have ne: "0 < ?H" and w: "0 < ?W"
    using assms by (auto simp: rectangular_def)
  have i: "wrap ?H y < ?H" using ne by (rule wrap_less)
  have j: "?j < ?W" using w by (rule wrap_less)
  have a: "?a < length h" and len: "length (h ! ?a) = ?W"
    using rectangular_row [OF assms i] by simp_all
  have rect': "rectangular ?h' board" and w': "width ?h' board = ?W"
    using update_rectangular [OF assms i] by simp_all
  have g': "get ?h' board x y = Inr v"
    using a j len by (simp add: get_rectangular [OF rect'] w' cell_def)
  have frame: "?h' ! b ! k = h ! b ! k" if "b \<noteq> ?a \<or> k \<noteq> ?j" for b k
    using that a by (cases "b = ?a") simp_all
  have cn: "count_neighbors h board x y =
           Inr (cell h board (wrap ?H y) (wrap ?W (x - 1)) +
                cell h board (wrap ?H y) (wrap ?W (x + 1)) +
                cell h board (wrap ?H (y - 1)) (wrap ?W x) +
                cell h board (wrap ?H (y + 1)) (wrap ?W x) +
                cell h board (wrap ?H (y + 1)) (wrap ?W (x + 1)) +
                cell h board (wrap ?H (y - 1)) (wrap ?W (x + 1)) +
                cell h board (wrap ?H (y + 1)) (wrap ?W (x - 1)) +
                cell h board (wrap ?H (y - 1)) (wrap ?W (x - 1)))"
    by (simp add: count_neighbors_def get_rectangular [OF assms])
  show ?thesis
    unfolding assign_rectangular [OF assms] cn
    using i j rect' w' g' frame wrap_int [OF ne] wrap_int [OF w] wrap_edges [OF ne] wrap_edges [OF w]
    by (simp add: get_rectangular [OF assms])
qed

theorem toroidal_wrap_witness:
  "rectangular (store example_state) example_board \<and>
   get (store example_state) example_board 5 (- 1) = Inr 1 \<and>
   get (store example_state) example_board (- 1) 3 = Inr 0 \<and>
   assign (store example_state) example_board 5 (- 1) 7
     = Inr [[0, 1, 0, 0], [0, 1, 0, 0], [0, 7, 0, 0]] \<and>
   count_neighbors (store example_state) example_board 0 0 = Inr 3"
proof -
  have r: "rectangular (store example_state) example_board"
    by (simp add: rectangular_def example_state_def example_board_def width_def)
  show ?thesis
    using r toroidal_wrap [OF r, of "- 1" 5 7] toroidal_wrap [OF r, of 3 "- 1" 0]
      toroidal_wrap [OF r, of 0 0 0]
    by (simp add: wrap_def cell_def width_def example_state_def example_board_def)
qed

section \<open>Counting neighbours\<close>

lemma wrap_eq_iff:
  assumes "0 < n"
  shows "wrap n a = wrap n b \<longleftrightarrow> int n dvd a - b"
proof -
  have "wrap n a = wrap n b \<longleftrightarrow> a mod int n = b mod int n"
    using assms by (simp add: wrap_def nat_eq_iff)
  then show ?thesis by (simp add: mod_eq_dvd_iff)
qed

lemma wrap_distinct:
  assumes "3 \<le> n"
  shows "wrap n (x - 1) \<noteq> wrap n x" and "wrap n (x + 1) \<noteq> wrap n x"
    and "wrap n (x - 1) \<noteq> wrap n (x + 1)"
proof -
  have n: "0 < n" using assms by simp
  have small: "\<not> int n dvd k" if "k \<noteq> 0" "\<bar>k\<bar> \<le> 2" for k
  proof
    assume "int n dvd k"
    then have "int n \<le> \<bar>k\<bar>" using that(1) by (simp add: zdvd_imp_le dvd_imp_le_int)
    then show False using that(2) assms by simp
  qed
  show "wrap n (x - 1) \<noteq> wrap n x" using small [of "- 1"] by (simp add: wrap_eq_iff [OF n])
  show "wrap n (x + 1) \<noteq> wrap n x" using small [of 1] by (simp add: wrap_eq_iff [OF n])
  show "wrap n (x - 1) \<noteq> wrap n (x + 1)" using small [of "- 2"] by (simp add: wrap_eq_iff [OF n])
qed

lemma moore_neighbours_distinct:
  assumes "3 \<le> w" and "3 \<le> n"
  shows "distinct (moore_neighbours w n x y)"
    and "(wrap w x, wrap n y) \<notin> set (moore_neighbours w n x y)"
  using wrap_distinct [OF assms(1), of x] wrap_distinct [OF assms(2), of y]
  by (auto simp: moore_neighbours_def offsets_def)

lemma sum_list_binary:
  assumes "\<forall>p \<in> set ps. f p = (0::int) \<or> f p = 1"
  shows "sum_list (map f ps) = int (length (filter (\<lambda>p. f p = 1) ps))"
  using assms by (induction ps) auto

lemma neighbor_sum_moore:
  "neighbor_sum h board x y =
     sum_list (map (\<lambda>p. cell h board (snd p) (fst p))
                 (moore_neighbours (width h board) (length board) x y))"
  by (simp add: neighbor_sum_def moore_neighbours_def offsets_def)

lemma moore_neighbours_range:
  assumes "0 < w" and "0 < n" and "p \<in> set (moore_neighbours w n x y)"
  shows "fst p < w \<and> snd p < n"
  using assms wrap_less by (auto simp: moore_neighbours_def)


text \<open>
  Claim C3, as amended. On a non-empty rectangular board of cells 0 and 1,
  \<^verbatim>\<open>count_neighbors(board, x, y)\<close> is the sum of the cells at the eight wrapped
  neighbour positions, each offset counted once, and lies between 0 and 8. When the board
  has at least three rows and three columns, these eight positions are pairwise distinct
  and none of them is \<open>(x, y)\<close>, so the result is the number of live cells among the
  eight distinct Moore neighbours.
\<close>

theorem count_neighbors_moore:
  assumes "rectangular h board" and "binary h board"
  shows "\<exists>n. count_neighbors h board x y = Inr n \<and> 0 \<le> n \<and> n \<le> 8 \<and>
           length (moore_neighbours (width h board) (length board) x y) = 8 \<and>
           n = sum_list (map (\<lambda>p. cell h board (snd p) (fst p))
                           (moore_neighbours (width h board) (length board) x y)) \<and>
           (3 \<le> width h board \<and> 3 \<le> length board \<longrightarrow>
              distinct (moore_neighbours (width h board) (length board) x y) \<and>
              (wrap (width h board) x, wrap (length board) y)
                 \<notin> set (moore_neighbours (width h board) (length board) x y) \<and>
              n = int (live_moore_neighbours h board x y))"
proof -
  let ?W = "width h board" and ?H = "length board"
  let ?ps = "moore_neighbours ?W ?H x y"
  let ?f = "\<lambda>p. cell h board (snd p) (fst p)"
  have ne: "0 < ?H" and w: "0 < ?W"
    using assms(1) by (auto simp: rectangular_def)
  have bin: "\<forall>p \<in> set ?ps. ?f p = 0 \<or> ?f p = 1"
    using moore_neighbours_range [OF w ne] rectangular_cell_binary [OF assms] by blast
  have len: "length ?ps = 8" by (simp add: moore_neighbours_def offsets_def)
  have n: "neighbor_sum h board x y = int (length (filter (\<lambda>p. ?f p = 1) ?ps))"
    by (simp only: neighbor_sum_moore sum_list_binary [OF bin])
  have "length (filter (\<lambda>p. ?f p = 1) ?ps) \<le> 8"
    using length_filter_le [of "\<lambda>p. ?f p = 1" ?ps] len by simp
  then have bounds: "0 \<le> neighbor_sum h board x y" "neighbor_sum h board x y \<le> 8"
    using n by simp_all
  have live: "neighbor_sum h board x y = int (live_moore_neighbours h board x y)"
    if "3 \<le> ?W" "3 \<le> ?H"
  proof -
    have d: "distinct ?ps" and self: "(wrap ?W x, wrap ?H y) \<notin> set ?ps"
      using moore_neighbours_distinct [OF that] by simp_all
    have "filter (\<lambda>p. p \<noteq> (wrap ?W x, wrap ?H y) \<and> ?f p = 1) ?ps = filter (\<lambda>p. ?f p = 1) ?ps"
      using self by (intro filter_cong) auto
    then show ?thesis
      using d n by (simp add: live_moore_neighbours_def distinct_remdups_id)
  qed
  show ?thesis
    unfolding count_neighbors_rectangular [OF assms(1)]
    using bounds len live moore_neighbours_distinct [of ?W ?H x y]
    by (auto simp: neighbor_sum_moore)
qed

theorem count_neighbors_moore_witness:
  "rectangular (store example_state) example_board \<and> binary (store example_state) example_board \<and>
   3 \<le> width (store example_state) example_board \<and> 3 \<le> length example_board \<and>
   live_moore_neighbours (store example_state) example_board 0 0 = 3 \<and>
   count_neighbors (store example_state) example_board 0 0 = Inr 3"
proof -
  have r: "rectangular (store example_state) example_board"
    by (simp add: rectangular_def example_state_def example_board_def width_def)
  have b: "binary (store example_state) example_board"
    by (simp add: binary_def example_state_def example_board_def)
  have w: "3 \<le> width (store example_state) example_board" "3 \<le> length example_board"
    by (simp_all add: example_state_def example_board_def width_def)
  have l: "live_moore_neighbours (store example_state) example_board 0 0 = 3"
    by (simp add: live_moore_neighbours_def moore_neighbours_def offsets_def wrap_def
          cell_def width_def example_state_def example_board_def)
  show ?thesis
    using r b w l count_neighbors_moore [OF r b, of 0 0] by auto
qed

text \<open>
  Claim C3 as stated, for every non-empty rectangular board, fails on the board
  \<^verbatim>\<open>[[1]]\<close>: all eight reads wrap to the cell itself and the result is 8, while
  the cell has no live neighbour other than itself.
\<close>

theorem count_neighbors_counterexample:
  "rectangular [[1]] [0] \<and> binary [[1]] [0] \<and>
   count_neighbors [[1]] [0] 0 0 = Inr 8 \<and>
   live_moore_neighbours [[1]] [0] 0 0 = 0 \<and>
   count_neighbors [[1]] [0] 0 0 \<noteq> Inr (int (live_moore_neighbours [[1]] [0] 0 0))"
  by (simp add: rectangular_def binary_def width_def count_neighbors_def get_def
        live_moore_neighbours_def moore_neighbours_def offsets_def wrap_def cell_def)

section \<open>Shape, frame and cost of one generation\<close>

lemma next_rows_binary:
  "binary (h @ next_rows h board) [length h..<length h + length board]"
  by (auto simp: binary_def list_all_length next_rows_def nth_append next_value_def
        rule_value_def)

lemma board_value_append:
  assumes "rectangular h board"
  shows "board_value (h @ rows) board = board_value h board"
proof -
  have "\<forall>a \<in> set board. a < length h"
    using assms by (auto simp: rectangular_def list_all_iff)
  then show ?thesis by (simp add: board_value_def nth_append)
qed

lemma rectangular_append:
  assumes "rectangular h board"
  shows "rectangular (h @ rows) board" and "width (h @ rows) board = width h board"
proof -
  have v: "\<forall>a \<in> set board. a < length h" and ne: "board \<noteq> []"
    using assms by (auto simp: rectangular_def list_all_iff)
  then have "board ! 0 < length h" by (cases board) auto
  then show w: "width (h @ rows) board = width h board"
    by (simp add: width_def nth_append)
  show "rectangular (h @ rows) board"
    unfolding rectangular_def w
    using assms by (auto simp: rectangular_def list_all_iff nth_append)
qed

lemma binary_append:
  assumes "rectangular h board" and "binary h board"
  shows "binary (h @ rows) board"
proof -
  have "\<forall>a \<in> set board. a < length h"
    using assms(1) by (auto simp: rectangular_def list_all_iff)
  then show ?thesis using assms(2) by (auto simp: binary_def list_all_iff nth_append)
qed

lemma board_value_next_rows:
  "board_value (h @ next_rows h board) [length h..<length h + length board] = next_rows h board"
  by (rule nth_equalityI) (simp_all add: board_value_def next_rows_def nth_append)

text \<open>
  Claim C4. On a non-empty rectangular board of height \<open>h\<close> and width \<open>w\<close> with cells
  0 and 1, \<^verbatim>\<open>process_life\<close> returns a rectangular board of the same height and width
  with cells 0 and 1. Its rows are newly allocated list objects, pairwise distinct; every
  object that existed before the call is unchanged, so the input board still has the
  same rows and the same cells.
\<close>

theorem process_life_shape:
  assumes "rectangular (store s) board" and "binary (store s) board"
  shows "\<exists>s' next_board.
           process_life rng s board = Inr (s', next_board) \<and>
           rectangular (store s') next_board \<and>
           length next_board = length board \<and>
           width (store s') next_board = width (store s) board \<and>
           binary (store s') next_board \<and>
           distinct next_board \<and>
           (\<forall>a \<in> set next_board. length (store s) \<le> a \<and> a < length (store s')) \<and>
           (\<forall>a < length (store s). store s' ! a = store s ! a) \<and>
           board_value (store s') board = board_value (store s) board \<and>
           rectangular (store s') board \<and> binary (store s') board"
  unfolding process_life_rectangular [OF assms(1)]
  using next_rows_rectangular [OF assms(1)] next_rows_binary [of "store s" board]
    board_value_append [OF assms(1)] rectangular_append(1) [OF assms(1)] binary_append [OF assms]
  by (simp add: nth_append next_rows_def)

theorem process_life_shape_witness:
  "rectangular (store example_state) example_board \<and> binary (store example_state) example_board \<and>
   (\<exists>s' next_board.
      process_life (\<lambda>k. 4) example_state example_board = Inr (s', next_board) \<and>
      length next_board = 3 \<and> width (store s') next_board = 4 \<and>
      binary (store s') next_board \<and>
      board_value (store s') example_board = [[0, 1, 0, 0], [0, 1, 0, 0], [0, 1, 0, 0]])"
proof -
  have r: "rectangular (store example_state) example_board"
    by (simp add: rectangular_def example_state_def example_board_def width_def)
  have b: "binary (store example_state) example_board"
    by (simp add: binary_def example_state_def example_board_def)
  have v: "board_value (store example_state) example_board = [[0, 1, 0, 0], [0, 1, 0, 0], [0, 1, 0, 0]]"
    "length example_board = 3" "width (store example_state) example_board = 4"
    by (simp_all add: board_value_def example_state_def example_board_def width_def)
  show ?thesis
    using r b process_life_shape [OF r b, of "\<lambda>k. 4"] by (auto simp: v)
qed

section \<open>The call log of one generation\<close>

lemma concat_map_concat:
  "concat (map f (concat xss)) = concat (map (\<lambda>xs. concat (map f xs)) xss)"
  by (induction xss) simp_all

lemma concat_map_singleton: "concat (map (\<lambda>x. [g x]) xs) = map g xs"
  by (induction xs) simp_all



lemma life_trace_assigned:
  "concat (map assigned (life_trace h board)) = positions (width h board) (length board)"
proof -
  have "concat (map assigned (row_trace h board y)) = map (\<lambda>x. (x, y)) [0..<width h board]" for y
    unfolding row_trace_def concat_map_concat
    by (simp add: o_def cell_trace_def concat_map_singleton)
  then show ?thesis
    unfolding life_trace_def concat_map_concat positions_def by (simp add: o_def)
qed


lemma positions_Suc:
  "positions w (Suc n) = positions w n @ map (\<lambda>x. (x, n)) [0..<w]"
  by (simp add: positions_def)

lemma set_positions: "set (positions w n) = {0..<w} \<times> {0..<n}"
  by (induction n) (auto simp: positions_Suc positions_def less_Suc_eq)

lemma distinct_positions: "distinct (positions w n)"
proof (induction n)
  case 0
  show ?case by (simp add: positions_def)
next
  case (Suc n)
  have "distinct (map (\<lambda>x. (x, n)) [0..<w])"
    by (simp add: distinct_map inj_on_def)
  then show ?case using Suc by (auto simp: positions_Suc set_positions)
qed





section \<open>Converting a board to records\<close>

lemma for_each_first_error:
  assumes "\<And>i t. i \<in> set xs \<Longrightarrow> bad i \<Longrightarrow> body i t = Inl e"
    and "\<And>i t. i \<in> set xs \<Longrightarrow> \<not> bad i \<Longrightarrow> \<exists>t'. body i t = Inr t'"
  shows "if \<exists>i \<in> set xs. bad i then for_each xs body s = Inl e
         else \<exists>s'. for_each xs body s = Inr s'"
  using assms
proof (induction xs arbitrary: s)
  case Nil
  then show ?case by simp
next
  case (Cons i xs)
  have IH: "if \<exists>j \<in> set xs. bad j then for_each xs body t = Inl e
            else \<exists>s'. for_each xs body t = Inr s'" for t
    by (rule Cons.IH) (use Cons.prems in auto)
  show ?case
  proof (cases "bad i")
    case True
    then have "body i s = Inl e" using Cons.prems(1) by simp
    then show ?thesis using True by simp
  next
    case False
    then obtain t where t: "body i s = Inr t" using Cons.prems(2) [of i s] by auto
    show ?thesis using False t IH [of t] by simp
  qed
qed

lemma rectangular_uniform: "rectangular h board \<Longrightarrow> uniform h board"
  by (simp add: rectangular_def uniform_def)

lemma index_cell_uniform:
  assumes "uniform h board" and "y < length board" and "x < width h board"
  shows "index_cell h board y x = Inr (cell h board y x)"
  using assms by (simp add: uniform_def list_all_length index_cell_def cell_def)

lemma lookup_notebook_globals:
  "lookup_name notebook_globals ''TRANSPARENT'' = Inl NameError"
  "lookup_name notebook_globals ''PURPLE'' = Inr PURPLE"
  "lookup_name notebook_globals ''PINK'' = Inr PINK"
  by (simp_all add: lookup_name_def notebook_globals_def)







section \<open>The loops of the notebooks\<close>

lemma map_of_set_item: "map_of (set_item k v d) = (map_of d)(k \<mapsto> v)"
  by (induction d) (auto simp: fun_eq_iff)

lemma set_attr_frame:
  assumes "a < length objs"
  shows "length (set_attr objs a name v) = length objs"
    and "b \<noteq> a \<Longrightarrow> set_attr objs a name v ! b = objs ! b"
    and "map_of (set_attr objs a name v ! a) name = Some v"
    and "name' \<noteq> name \<Longrightarrow> map_of (set_attr objs a name v ! a) name' = map_of (objs ! a) name'"
  using assms by (simp_all add: set_attr_def map_of_set_item)

lemma convert_board_to_df_rectangular:
  assumes "rectangular h board"
  shows "\<exists>records. convert_board_to_df notebook_globals h board = Inr records"
proof -
  have u: "uniform h board" using assms by (rule rectangular_uniform)
  have ne: "board \<noteq> []" using assms by (simp add: rectangular_def)
  have cell_ok: "\<exists>t'. convert_cell notebook_globals h board x y t = Inr t'"
    if "x < width h board" "y < length board" for x y t
    using index_cell_uniform [OF u that(2,1)]
    by (simp add: convert_cell_def lookup_notebook_globals)
  have col: "\<exists>t'. for_each [0..<length board] (convert_cell notebook_globals h board x) t = Inr t'"
    if "x < width h board" for x t
    using for_each_first_error [of "[0..<length board]" "\<lambda>_. False"
        "convert_cell notebook_globals h board x" NameError t] cell_ok [OF that]
    by simp
  have "\<exists>rows. for_each [0..<width h board]
          (\<lambda>x. for_each [0..<length board] (convert_cell notebook_globals h board x)) [] = Inr rows"
    using for_each_first_error [of "[0..<width h board]" "\<lambda>_. False"
        "\<lambda>x. for_each [0..<length board] (convert_cell notebook_globals h board x)" NameError "[]"]
      col
    by simp
  then show ?thesis using ne by (auto simp: convert_board_to_df_def width_def)
qed

lemma cell_board_value:
  assumes "i < length board"
  shows "cell (board_value h board) [0..<length board] i j = cell h board i j"
  using assms by (simp add: cell_def board_value_def)

lemma width_board_value:
  assumes "board \<noteq> []"
  shows "width (board_value h board) [0..<length board] = width h board"
  using assms by (cases board) (simp_all add: width_def board_value_def upt_rec)

lemma next_rows_value:
  assumes "rectangular h board"
  shows "next_rows h board = generation (board_value h board)"
proof -
  let ?bv = "board_value h board" and ?H = "length board" and ?W = "width h board"
  have ne: "board \<noteq> []" and H: "0 < ?H" and W: "0 < ?W"
    using assms by (auto simp: rectangular_def)
  have w: "width ?bv [0..<?H] = ?W" using ne by (rule width_board_value)
  have ns: "neighbor_sum ?bv [0..<?H] x y = neighbor_sum h board x y" for x y
    using wrap_less [OF H]
    by (simp add: neighbor_sum_def w cell_board_value offsets_def)
  have nv: "next_value ?bv [0..<?H] x y = next_value h board x y" if "y < ?H" for x y
    using that by (simp add: next_value_def ns cell_board_value)
  have len: "length ?bv = ?H" by (simp add: board_value_def)
  have "generation ?bv = next_rows ?bv [0..<?H]"
    by (simp only: generation_def len)
  also have "\<dots> = map (\<lambda>y. map (\<lambda>x. next_value ?bv [0..<?H] x y) [0..<?W]) [0..<?H]"
    by (simp only: next_rows_def w length_upt diff_zero)
  also have "\<dots> = map (\<lambda>y. map (\<lambda>x. next_value h board x y) [0..<?W]) [0..<?H]"
    by (rule map_cong) (simp_all add: nv)
  finally show ?thesis by (simp only: next_rows_def)
qed


lemma for_each_upt_Suc:
  "for_each [0..<Suc n] body s =
     (case for_each [0..<n] body s of Inl e \<Rightarrow> Inl e | Inr t \<Rightarrow> body n t)"
  by (simp add: for_each_append split: sum.splits)

lemma for_each_map: "for_each (map f xs) body s = for_each xs (\<lambda>i. body (f i)) s"
  by (induction xs arbitrary: s) (simp_all split: sum.splits)

lemma text_loop_upt: "text_loop rng n nb = for_each [0..<n] (\<lambda>i. text_step rng (Suc i)) nb"
proof -
  have "[1..<Suc n] = map Suc [0..<n]" by (simp add: map_Suc_upt)
  then show ?thesis by (simp only: text_loop_def for_each_map)
qed

lemma process_life_next:
  assumes "rectangular (store s) board"
  shows "\<exists>s' board'. process_life rng s board = Inr (s', board') \<and>
           rectangular (store s') board' \<and>
           board_value (store s') board' = generation (board_value (store s) board)"
proof -
  let ?h' = "store s @ next_rows (store s) board"
  let ?b' = "[length (store s)..<length (store s) + length board]"
  have "board_value ?h' ?b' = next_rows (store s) board" by (rule board_value_next_rows)
  then have "board_value ?h' ?b' = generation (board_value (store s) board)"
    by (simp only: next_rows_value [OF assms])
  then show ?thesis
    unfolding process_life_rectangular [OF assms]
    using next_rows_rectangular(1) [OF assms] by simp
qed

lemma animation_step_ok:
  assumes "rectangular (store (interp nb)) (board_var nb)"
  shows "\<exists>nb' records.
           animation_step rng notebook_globals update layer i nb = Inr nb' \<and>
           process_life rng (interp nb) (board_var nb) = Inr (interp nb', board_var nb') \<and>
           rectangular (store (interp nb')) (board_var nb') \<and>
           board_value (store (interp nb')) (board_var nb')
             = generation (board_value (store (interp nb)) (board_var nb)) \<and>
           convert_board_to_df notebook_globals (store (interp nb')) (board_var nb')
             = Inr records \<and>
           records_var nb' = records \<and>
           objects nb' = set_attr (objects nb) layer ''data'' records \<and>
           r_var nb' = r_var nb \<and> stdout nb' = stdout nb \<and>
           widget nb' = update (objects nb') (r_var nb') (widget nb)"
proof -
  obtain s' board' where p: "process_life rng (interp nb) (board_var nb) = Inr (s', board')"
    and r': "rectangular (store s') board'"
    and v: "board_value (store s') board'
              = generation (board_value (store (interp nb)) (board_var nb))"
    using process_life_next [OF assms] by blast
  obtain records where c: "convert_board_to_df notebook_globals (store s') board' = Inr records"
    using convert_board_to_df_rectangular [OF r'] by blast
  show ?thesis
    using p r' v c by (simp add: animation_step_def Let_def)
qed

lemma text_step_ok:
  assumes "rectangular (store (interp nb)) (board_var nb)"
  shows "\<exists>nb'. text_step rng i nb = Inr nb' \<and>
           process_life rng (interp nb) (board_var nb) = Inr (interp nb', board_var nb') \<and>
           rectangular (store (interp nb')) (board_var nb') \<and>
           board_value (store (interp nb')) (board_var nb')
             = generation (board_value (store (interp nb)) (board_var nb)) \<and>
           stdout nb' = stdout nb @
              [Print (''Iteration '' @ str i @ newline),
               Print (draw_board (store (interp nb')) (board_var nb')), ClearOutput] \<and>
           objects nb' = objects nb \<and> r_var nb' = r_var nb \<and> widget nb' = widget nb"
proof -
  obtain s' board' where p: "process_life rng (interp nb) (board_var nb) = Inr (s', board')"
    and r': "rectangular (store s') board'"
    and v: "board_value (store s') board'
              = generation (board_value (store (interp nb)) (board_var nb))"
    using process_life_next [OF assms] by blast
  show ?thesis
    using p r' v by (simp add: text_step_def Let_def)
qed

text \<open>
  A loop whose body turns a session with a rectangular board into one whose board is the
  next generation runs to its end, and after \<open>n\<close> rounds the board is the \<open>n\<close>-fold
  iterate.
\<close>

lemma life_loop:
  fixes body :: "nat \<Rightarrow> 'w notebook \<Rightarrow> error + 'w notebook"
  assumes step: "\<And>i t. rectangular (store (interp t)) (board_var t) \<Longrightarrow>
            \<exists>t'. body i t = Inr t' \<and>
                 process_life rng (interp t) (board_var t) = Inr (interp t', board_var t') \<and>
                 rectangular (store (interp t')) (board_var t') \<and>
                 board_value (store (interp t')) (board_var t')
                   = generation (board_value (store (interp t)) (board_var t))"
    and rect: "rectangular (store (interp nb)) (board_var nb)"
  shows "\<exists>nb'. for_each [0..<n] body nb = Inr nb' \<and>
           rectangular (store (interp nb')) (board_var nb') \<and>
           iterate_life rng n (interp nb) (board_var nb) = Inr (interp nb', board_var nb') \<and>
           board_value (store (interp nb')) (board_var nb')
             = (generation ^^ n) (board_value (store (interp nb)) (board_var nb))"
proof -
  let ?P = "\<lambda>k t. rectangular (store (interp t)) (board_var t) \<and>
              iterate_life rng k (interp nb) (board_var nb) = Inr (interp t, board_var t) \<and>
              board_value (store (interp t)) (board_var t)
                = (generation ^^ k) (board_value (store (interp nb)) (board_var nb))"
  have init: "?P 0 nb" using rect by simp
  have stp: "\<exists>t'. body k t = Inr t' \<and> ?P (Suc k) t'" if k: "k < n" and P: "?P k t" for k t
  proof -
    obtain t' where "body k t = Inr t'"
      "process_life rng (interp t) (board_var t) = Inr (interp t', board_var t')"
      "rectangular (store (interp t')) (board_var t')"
      "board_value (store (interp t')) (board_var t')
         = generation (board_value (store (interp t)) (board_var t))"
      using step [of t k] P by blast
    then show ?thesis using P by simp
  qed
  show ?thesis
    by (rule for_each_invariant [where P = ?P]) (use init stp in blast)+
qed


text \<open>
  Claim C7. The loops run their rounds one after the other. From a non-empty rectangular
  board, the animation loop and the text loop both complete any number \<open>n\<close> of rounds,
  and the board after them is the \<open>n\<close>-fold application of \<^verbatim>\<open>process_life\<close> to the
  initial board. In round \<open>k + 1\<close> the board is \<^verbatim>\<open>process_life\<close> of the board after
  round \<open>k\<close>; the records are converted from that new board and stored in
  \<^verbatim>\<open>layer.data\<close>, and the refresh then sees the object store with these records and
  the widget as round \<open>k\<close> left it; the text loop writes the heading of round \<open>k + 1\<close>
  and then the drawing of that round's board.
\<close>

theorem loops_sequential:
  assumes "rectangular (store (interp nb)) (board_var nb)"
  shows "(\<exists>nb'. animation_loop rng notebook_globals update layer n nb = Inr nb' \<and>
            iterate_life rng n (interp nb) (board_var nb) = Inr (interp nb', board_var nb') \<and>
            board_value (store (interp nb')) (board_var nb')
              = (generation ^^ n) (board_value (store (interp nb)) (board_var nb))) \<and>
         (\<forall>k<n. \<exists>nbk nbk1 records.
            animation_loop rng notebook_globals update layer k nb = Inr nbk \<and>
            animation_loop rng notebook_globals update layer (Suc k) nb = Inr nbk1 \<and>
            process_life rng (interp nbk) (board_var nbk) = Inr (interp nbk1, board_var nbk1) \<and>
            convert_board_to_df notebook_globals (store (interp nbk1)) (board_var nbk1)
              = Inr records \<and>
            records_var nbk1 = records \<and>
            objects nbk1 = set_attr (objects nbk) layer ''data'' records \<and>
            widget nbk1 = update (objects nbk1) (r_var nbk1) (widget nbk)) \<and>
         (\<exists>nb'. text_loop rng n nb = Inr nb' \<and>
            iterate_life rng n (interp nb) (board_var nb) = Inr (interp nb', board_var nb') \<and>
            board_value (store (interp nb')) (board_var nb')
              = (generation ^^ n) (board_value (store (interp nb)) (board_var nb))) \<and>
         (\<forall>k<n. \<exists>nbk nbk1.
            text_loop rng k nb = Inr nbk \<and>
            text_loop rng (Suc k) nb = Inr nbk1 \<and>
            process_life rng (interp nbk) (board_var nbk) = Inr (interp nbk1, board_var nbk1) \<and>
            stdout nbk1 = stdout nbk @
              [Print (''Iteration '' @ str (Suc k) @ newline),
               Print (draw_board (store (interp nbk1)) (board_var nbk1)), ClearOutput])"
proof -
  let ?astep = "animation_step rng notebook_globals update layer"
  let ?tstep = "\<lambda>i. text_step rng (Suc i)"
  have a_step: "\<exists>t'. ?astep i t = Inr t' \<and>
                 process_life rng (interp t) (board_var t) = Inr (interp t', board_var t') \<and>
                 rectangular (store (interp t')) (board_var t') \<and>
                 board_value (store (interp t')) (board_var t')
                   = generation (board_value (store (interp t)) (board_var t))"
    if "rectangular (store (interp t)) (board_var t)" for i t
    using animation_step_ok [OF that, of rng update layer i] by blast
  have t_step: "\<exists>t'. ?tstep i t = Inr t' \<and>
                 process_life rng (interp t) (board_var t) = Inr (interp t', board_var t') \<and>
                 rectangular (store (interp t')) (board_var t') \<and>
                 board_value (store (interp t')) (board_var t')
                   = generation (board_value (store (interp t)) (board_var t))"
    if "rectangular (store (interp t)) (board_var t)" for i t
    using text_step_ok [OF that, of rng "Suc i"] by blast
  have a_loop: "\<exists>nb'. animation_loop rng notebook_globals update layer m nb = Inr nb' \<and>
           rectangular (store (interp nb')) (board_var nb') \<and>
           iterate_life rng m (interp nb) (board_var nb) = Inr (interp nb', board_var nb') \<and>
           board_value (store (interp nb')) (board_var nb')
             = (generation ^^ m) (board_value (store (interp nb)) (board_var nb))" for m
    unfolding animation_loop_def
    by (rule life_loop [where body = ?astep, OF _ assms]) (rule a_step)
  have t_loop: "\<exists>nb'. text_loop rng m nb = Inr nb' \<and>
           rectangular (store (interp nb')) (board_var nb') \<and>
           iterate_life rng m (interp nb) (board_var nb) = Inr (interp nb', board_var nb') \<and>
           board_value (store (interp nb')) (board_var nb')
             = (generation ^^ m) (board_value (store (interp nb)) (board_var nb))" for m
    unfolding text_loop_upt
    by (rule life_loop [where body = ?tstep, OF _ assms]) (rule t_step)
  have a_round: "\<exists>nbk nbk1 records.
            animation_loop rng notebook_globals update layer k nb = Inr nbk \<and>
            animation_loop rng notebook_globals update layer (Suc k) nb = Inr nbk1 \<and>
            process_life rng (interp nbk) (board_var nbk) = Inr (interp nbk1, board_var nbk1) \<and>
            convert_board_to_df notebook_globals (store (interp nbk1)) (board_var nbk1)
              = Inr records \<and>
            records_var nbk1 = records \<and>
            objects nbk1 = set_attr (objects nbk) layer ''data'' records \<and>
            widget nbk1 = update (objects nbk1) (r_var nbk1) (widget nbk)" for k
  proof -
    obtain nbk where k: "animation_loop rng notebook_globals update layer k nb = Inr nbk"
      and rk: "rectangular (store (interp nbk)) (board_var nbk)"
      using a_loop [of k] by blast
    obtain nbk1 records where k1: "?astep k nbk = Inr nbk1"
      "process_life rng (interp nbk) (board_var nbk) = Inr (interp nbk1, board_var nbk1)"
      "convert_board_to_df notebook_globals (store (interp nbk1)) (board_var nbk1) = Inr records"
      "records_var nbk1 = records"
      "objects nbk1 = set_attr (objects nbk) layer ''data'' records"
      "widget nbk1 = update (objects nbk1) (r_var nbk1) (widget nbk)"
      using animation_step_ok [OF rk, of rng update layer k] by blast
    have "animation_loop rng notebook_globals update layer (Suc k) nb = Inr nbk1"
      using k k1(1) by (simp only: animation_loop_def for_each_upt_Suc sum.case)
    then show ?thesis using k k1(2-6) by blast
  qed
  have t_round: "\<exists>nbk nbk1.
            text_loop rng k nb = Inr nbk \<and>
            text_loop rng (Suc k) nb = Inr nbk1 \<and>
            process_life rng (interp nbk) (board_var nbk) = Inr (interp nbk1, board_var nbk1) \<and>
            stdout nbk1 = stdout nbk @
              [Print (''Iteration '' @ str (Suc k) @ newline),
               Print (draw_board (store (interp nbk1)) (board_var nbk1)), ClearOutput]" for k
  proof -
    obtain nbk where k: "text_loop rng k nb = Inr nbk"
      and rk: "rectangular (store (interp nbk)) (board_var nbk)"
      using t_loop [of k] by blast
    obtain nbk1 where k1: "text_step rng (Suc k) nbk = Inr nbk1"
      "process_life rng (interp nbk) (board_var nbk) = Inr (interp nbk1, board_var nbk1)"
      "stdout nbk1 = stdout nbk @
              [Print (''Iteration '' @ str (Suc k) @ newline),
               Print (draw_board (store (interp nbk1)) (board_var nbk1)), ClearOutput]"
      using text_step_ok [OF rk, of rng "Suc k"] by blast
    have "text_loop rng (Suc k) nb = Inr nbk1"
      using k k1(1) by (simp only: text_loop_upt for_each_upt_Suc sum.case)
    then show ?thesis using k k1(2,3) by blast
  qed
  show ?thesis
    using a_loop [of n] t_loop [of n] a_round t_round by blast
qed


theorem loops_sequential_witness:
  "rectangular (store (interp example_notebook)) (board_var example_notebook) \<and>
   (\<exists>nb'. animation_loop (\<lambda>k. k) notebook_globals (\<lambda>objs d w. w @ [objs]) 0 2 example_notebook
             = Inr nb' \<and>
          board_value (store (interp nb')) (board_var nb')
             = [[0, 0, 0, 0], [0, 0, 0, 0], [0, 0, 0, 0]]) \<and>
   (\<exists>nb'. text_loop (\<lambda>k. k) 2 example_notebook = Inr nb' \<and>
          board_value (store (interp nb')) (board_var nb')
             = [[0, 0, 0, 0], [0, 0, 0, 0], [0, 0, 0, 0]])"
proof -
  let ?log = "\<lambda>(objs :: obj list) (d :: deck) (w :: obj list list). w @ [objs]"
  have r: "rectangular (store (interp example_notebook)) (board_var example_notebook)"
    by (simp add: rectangular_def example_notebook_def example_state_def example_board_def
          width_def)
  have b: "board_value (store (interp example_notebook)) (board_var example_notebook)
             = [[0, 1, 0, 0], [0, 1, 0, 0], [0, 1, 0, 0]]"
    by (simp add: board_value_def example_notebook_def example_state_def example_board_def)
  have g1: "generation [[0, 1, 0, 0], [0, 1, 0, 0], [0, 1, 0, 0]]
              = [[1, 1, 1, 0], [1, 1, 1, 0], [1, 1, 1, 0]]"
    by (simp add: generation_def next_rows_def next_value_def neighbor_sum_def offsets_def
          cell_def wrap_def width_def rule_value_def upt_rec)
  have g2: "generation [[1, 1, 1, 0], [1, 1, 1, 0], [1, 1, 1, 0]]
              = [[0, 0, 0, 0], [0, 0, 0, 0], [0, 0, 0, 0]]"
    by (simp add: generation_def next_rows_def next_value_def neighbor_sum_def offsets_def
          cell_def wrap_def width_def rule_value_def upt_rec)
  have g: "(generation ^^ 2) [[0, 1, 0, 0], [0, 1, 0, 0], [0, 1, 0, 0]]
             = [[0, 0, 0, 0], [0, 0, 0, 0], [0, 0, 0, 0]]"
    by (simp add: numeral_2_eq_2 g1 g2)
  from loops_sequential [OF r, of "\<lambda>k. k" ?log 0 2]
  obtain nb1 nb2 where
    "animation_loop (\<lambda>k. k) notebook_globals ?log 0 2 example_notebook = Inr nb1"
    "board_value (store (interp nb1)) (board_var nb1)
       = (generation ^^ 2) (board_value (store (interp example_notebook)) (board_var example_notebook))"
    "text_loop (\<lambda>k. k) 2 example_notebook = Inr nb2"
    "board_value (store (interp nb2)) (board_var nb2)
       = (generation ^^ 2) (board_value (store (interp example_notebook)) (board_var example_notebook))"
    by blast
  then show ?thesis using r by (simp add: b g)
qed

text \<open>
  Claim C9. A round of either update loop changes the configuration in place: it rebinds
  one attribute of the existing layer object (\<^verbatim>\<open>data\<close> in the Game of Life notebook,
  \<^verbatim>\<open>elevation_range\<close> in the introduction) and then refreshes. The object store keeps
  its size, so no layer or deck object is constructed; every other object and every other
  attribute of the layer is unchanged; the deck is unchanged; and the refresh is given the
  object store after the assignment.
\<close>

theorem update_in_place:
  assumes "rectangular (store (interp nb)) (board_var nb)"
    and "layer < length (objects nb)" and "layer' < length (objects ss)"
  shows "(\<exists>nb'. animation_step rng notebook_globals update layer i nb = Inr nb' \<and>
            length (objects nb') = length (objects nb) \<and>
            (\<forall>a. a \<noteq> layer \<longrightarrow> objects nb' ! a = objects nb ! a) \<and>
            (\<forall>name. name \<noteq> ''data'' \<longrightarrow>
               map_of (objects nb' ! layer) name = map_of (objects nb ! layer) name) \<and>
            map_of (objects nb' ! layer) ''data'' = Some (records_var nb') \<and>
            convert_board_to_df notebook_globals (store (interp nb')) (board_var nb')
              = Inr (records_var nb') \<and>
            r_var nb' = r_var nb \<and>
            widget nb' = update (objects nb') (r_var nb') (widget nb)) \<and>
         (\<exists>ss'. elevation_step update' layer' j ss = Inr ss' \<and>
            length (objects ss') = length (objects ss) \<and>
            (\<forall>a. a \<noteq> layer' \<longrightarrow> objects ss' ! a = objects ss ! a) \<and>
            (\<forall>name. name \<noteq> ''elevation_range'' \<longrightarrow>
               map_of (objects ss' ! layer') name = map_of (objects ss ! layer') name) \<and>
            map_of (objects ss' ! layer') ''elevation_range'' = Some (PyList [PyInt 0, PyInt j]) \<and>
            r_var ss' = r_var ss \<and>
            widget ss' = update' (objects ss') (r_var ss') (widget ss))"
proof -
  obtain nb' records where
    "animation_step rng notebook_globals update layer i nb = Inr nb'"
    "convert_board_to_df notebook_globals (store (interp nb')) (board_var nb') = Inr records"
    "records_var nb' = records"
    "objects nb' = set_attr (objects nb) layer ''data'' records"
    "r_var nb' = r_var nb"
    "widget nb' = update (objects nb') (r_var nb') (widget nb)"
    using animation_step_ok [OF assms(1), of rng update layer i] by blast
  then have life: "\<exists>nb'. animation_step rng notebook_globals update layer i nb = Inr nb' \<and>
            length (objects nb') = length (objects nb) \<and>
            (\<forall>a. a \<noteq> layer \<longrightarrow> objects nb' ! a = objects nb ! a) \<and>
            (\<forall>name. name \<noteq> ''data'' \<longrightarrow>
               map_of (objects nb' ! layer) name = map_of (objects nb ! layer) name) \<and>
            map_of (objects nb' ! layer) ''data'' = Some (records_var nb') \<and>
            convert_board_to_df notebook_globals (store (interp nb')) (board_var nb')
              = Inr (records_var nb') \<and>
            r_var nb' = r_var nb \<and>
            widget nb' = update (objects nb') (r_var nb') (widget nb)"
    using set_attr_frame [OF assms(2)] by simp
  have intro: "\<exists>ss'. elevation_step update' layer' j ss = Inr ss' \<and>
            length (objects ss') = length (objects ss) \<and>
            (\<forall>a. a \<noteq> layer' \<longrightarrow> objects ss' ! a = objects ss ! a) \<and>
            (\<forall>name. name \<noteq> ''elevation_range'' \<longrightarrow>
               map_of (objects ss' ! layer') name = map_of (objects ss ! layer') name) \<and>
            map_of (objects ss' ! layer') ''elevation_range'' = Some (PyList [PyInt 0, PyInt j]) \<and>
            r_var ss' = r_var ss \<and>
            widget ss' = update' (objects ss') (r_var ss') (widget ss)"
    using set_attr_frame [OF assms(3)] by (simp add: elevation_step_def Let_def)
  show ?thesis using life intro by blast
qed

theorem update_in_place_witness:
  "rectangular (store (interp example_notebook)) (board_var example_notebook) \<and>
   (0::nat) < length (objects example_notebook) \<and>
   (0::nat) < length (objects example_session) \<and>
   (\<exists>nb'. animation_step (\<lambda>k. k) notebook_globals (\<lambda>objs d w. w @ [objs]) 0 0 example_notebook
             = Inr nb' \<and>
          length (objects nb') = 1 \<and>
          map_of (objects nb' ! 0) ''type'' = Some (PyStr ''PointCloudLayer'') \<and>
          map_of (objects nb' ! 0) ''get_radius'' = Some (PyInt 40) \<and>
          map_of (objects nb' ! 0) ''data'' = Some (records_var nb') \<and>
          widget nb' = [objects nb']) \<and>
   (\<exists>ss'. elevation_step (\<lambda>objs d w. w @ [objs]) 0 1000 example_session = Inr ss' \<and>
          map_of (objects ss' ! 0) ''type'' = Some (PyStr ''HexagonLayer'') \<and>
          map_of (objects ss' ! 0) ''elevation_range'' = Some (PyList [PyInt 0, PyInt 1000]))"
proof -
  let ?log = "\<lambda>(objs :: obj list) (d :: deck) (w :: obj list list). w @ [objs]"
  have r: "rectangular (store (interp example_notebook)) (board_var example_notebook)"
    by (simp add: rectangular_def example_notebook_def example_state_def example_board_def
          width_def)
  have l: "(0::nat) < length (objects example_notebook)"
    "(0::nat) < length (objects example_session)"
    by (simp_all add: example_notebook_def example_session_def)
  have n: "length (objects example_notebook) = 1" "widget example_notebook = []"
    by (simp_all add: example_notebook_def)
  have o: "map_of (objects example_notebook ! 0) ''type'' = Some (PyStr ''PointCloudLayer'')"
    "map_of (objects example_notebook ! 0) ''get_radius'' = Some (PyInt 40)"
    "map_of (objects example_session ! 0) ''type'' = Some (PyStr ''HexagonLayer'')"
    by (simp_all add: example_notebook_def example_session_def)
  note u = update_in_place [OF r l, of "\<lambda>k. k" ?log 0 ?log 1000]
  from u [THEN conjunct1]
  obtain nb' where
    nb': "animation_step (\<lambda>k. k) notebook_globals ?log 0 0 example_notebook = Inr nb'"
      "length (objects nb') = length (objects example_notebook)"
      "\<forall>name. name \<noteq> ''data'' \<longrightarrow>
         map_of (objects nb' ! 0) name = map_of (objects example_notebook ! 0) name"
      "map_of (objects nb' ! 0) ''data'' = Some (records_var nb')"
      "widget nb' = ?log (objects nb') (r_var nb') (widget example_notebook)"
    by (elim exE conjE)
  from u [THEN conjunct2]
  obtain ss' where
    ss': "elevation_step ?log 0 1000 example_session = Inr ss'"
      "\<forall>name. name \<noteq> ''elevation_range'' \<longrightarrow>
         map_of (objects ss' ! 0) name = map_of (objects example_session ! 0) name"
      "map_of (objects ss' ! 0) ''elevation_range'' = Some (PyList [PyInt 0, PyInt 1000])"
    by (elim exE conjE)
  have t: "map_of (objects nb' ! 0) ''type'' = Some (PyStr ''PointCloudLayer'')"
    "map_of (objects nb' ! 0) ''get_radius'' = Some (PyInt 40)"
    using nb'(3) o(1,2) by simp_all
  have t': "map_of (objects ss' ! 0) ''type'' = Some (PyStr ''HexagonLayer'')"
    using ss'(2) o(3) by simp
  have w: "widget nb' = [objects nb']" using nb'(5) n(2) by simp
  have len: "length (objects nb') = 1" using nb'(2) n(1) by simp
  show ?thesis
    using r l nb'(1,4) ss'(1,3) t t' w len by blast
qed

section \<open>The shape of the JSON specification\<close>

lemma intro_objects_value:
  "intro_objects =
     [[(''type'', PyStr ''HexagonLayer''), (''data'', PyStr data_url),
       (''elevation_scale'', PyInt 50),
       (''elevation_range'', PyList [PyInt 0, PyInt 3000]),
       (''extruded'', PyBool True),
       (''coverage'', PyInt 1),
       (''light_settings'', lights)],
      [(''longitude'', PyFloat (- 1415 / 1000)), (''latitude'', PyFloat (522323 / 10000)),
       (''zoom'', PyFloat (66 / 10)), (''min_zoom'', PyInt 5), (''max_zoom'', PyInt 15),
       (''pitch'', PyFloat (405 / 10)), (''bearing'', PyFloat (- 27396 / 1000))],
      [(''type'', PyStr ''MapView''), (''controller'', PyBool True)]]"
  by (simp add: intro_objects_def set_attr_def Layer_def)

text \<open>
  Claim C10. The JSON specification that a deck sends to the rendering widget is an
  object whose keys include \<^verbatim>\<open>initialViewState\<close>, \<^verbatim>\<open>layers\<close> and \<^verbatim>\<open>views\<close>; the
  value of \<^verbatim>\<open>layers\<close> is a list with one descriptor for each layer of the deck, in
  order, and each descriptor is an object holding the type tag of its layer and the
  layer's other attributes as its property bag. A refresh in the update loop leaves
  exactly this specification in the widget.
\<close>

theorem deck_json_shape:
  "\<exists>kvs ls vs.
     to_json objs d = PyDict kvs \<and>
     map_of kvs ''initialViewState'' = Some (PyDict (objs ! initial_view_state d)) \<and>
     map_of kvs ''layers'' = Some (PyList ls) \<and>
     map_of kvs ''views'' = Some (PyList vs) \<and>
     length ls = length (layers d) \<and>
     (\<forall>i<length ls.
        ls ! i = PyDict ((''type'', type_tag (objs ! (layers d ! i)))
                          # property_bag (objs ! (layers d ! i)))) \<and>
     type_tag (Layer t data kwargs) = PyStr t \<and>
     property_bag (Layer t data kwargs) = (''data'', data) # property_bag kwargs \<and>
     (\<forall>ss'. elevation_step send_json layer i ss = Inr ss' \<longrightarrow>
        widget ss' = to_json (objects ss') (r_var ss'))"
  by (simp add: to_json_def layer_descriptor_def Layer_def type_tag_def property_bag_def
        elevation_step_def send_json_def Let_def)

theorem deck_json_shape_witness:
  "to_json intro_objects intro_deck =
     PyDict
       [(''initialViewState'',
         PyDict [(''longitude'', PyFloat (- 1415 / 1000)), (''latitude'', PyFloat (522323 / 10000)),
                 (''zoom'', PyFloat (66 / 10)), (''min_zoom'', PyInt 5), (''max_zoom'', PyInt 15),
                 (''pitch'', PyFloat (405 / 10)), (''bearing'', PyFloat (- 27396 / 1000))]),
        (''layers'',
         PyList [PyDict [(''type'', PyStr ''HexagonLayer''),
                         (''data'', PyStr data_url),
                         (''elevation_scale'', PyInt 50),
                         (''elevation_range'', PyList [PyInt 0, PyInt 3000]),
                         (''extruded'', PyBool True),
                         (''coverage'', PyInt 1),
                         (''light_settings'', lights)]]),
        (''views'', PyList [PyDict [(''type'', PyStr ''MapView''), (''controller'', PyBool True)]])]"
proof -
  from deck_json_shape [of intro_objects intro_deck "''HexagonLayer''" "PyStr data_url" "[]"
      0 1000 "\<lparr>objects = intro_objects, r_var = intro_deck, widget = PyNone\<rparr>"]
  obtain kvs ls where
    j: "to_json intro_objects intro_deck = PyDict kvs"
    and l: "map_of kvs ''layers'' = Some (PyList ls)" "length ls = length (layers intro_deck)"
      "\<forall>i<length ls.
        ls ! i = PyDict ((''type'', type_tag (intro_objects ! (layers intro_deck ! i)))
                          # property_bag (intro_objects ! (layers intro_deck ! i)))"
    by blast
  have "ls ! 0 = PyDict ((''type'', type_tag (intro_objects ! 0)) # property_bag (intro_objects ! 0))"
    using l(2,3) by (simp add: intro_deck_def)
  then have l0: "ls ! 0 = PyDict [(''type'', PyStr ''HexagonLayer''),
                         (''data'', PyStr data_url),
                         (''elevation_scale'', PyInt 50),
                         (''elevation_range'', PyList [PyInt 0, PyInt 3000]),
                         (''extruded'', PyBool True),
                         (''coverage'', PyInt 1),
                         (''light_settings'', lights)]"
    by (simp add: intro_objects_value property_bag_def type_tag_def)
  have "kvs = [(''initialViewState'', PyDict (intro_objects ! 1)),
               (''layers'', PyList (map (\<lambda>a. layer_descriptor (intro_objects ! a)) [0])),
               (''views'', PyList (map (\<lambda>a. PyDict (intro_objects ! a)) [2]))]"
    using j by (simp add: to_json_def intro_deck_def)
  moreover have "ls = [ls ! 0]"
    using l(2) by (cases ls) (simp_all add: intro_deck_def)
  ultimately show ?thesis
    using j l(1) l0 by (simp add: intro_objects_value)
qed

section \<open>Two runs on a board of any shape\<close>

lemma for_each_lockstep:
  assumes "R 0 s1 s2"
    and "\<And>i t1 t2. i < n \<Longrightarrow> R i t1 t2 \<Longrightarrow>
           (\<exists>e. body1 i t1 = Inl e \<and> body2 i t2 = Inl e) \<or>
           (\<exists>t1' t2'. body1 i t1 = Inr t1' \<and> body2 i t2 = Inr t2' \<and> R (Suc i) t1' t2')"
  shows "(\<exists>e. for_each [0..<n] body1 s1 = Inl e \<and> for_each [0..<n] body2 s2 = Inl e) \<or>
         (\<exists>t1 t2. for_each [0..<n] body1 s1 = Inr t1 \<and> for_each [0..<n] body2 s2 = Inr t2 \<and>
                  R n t1 t2)"
  using assms(2)
proof (induction n)
  case 0
  have "for_each [0..<0] body1 s1 = Inr s1" "for_each [0..<0] body2 s2 = Inr s2" by simp_all
  then show ?case using assms(1) by blast
next
  case (Suc n)
  have step: "(\<exists>e. body1 i t1 = Inl e \<and> body2 i t2 = Inl e) \<or>
           (\<exists>t1' t2'. body1 i t1 = Inr t1' \<and> body2 i t2 = Inr t2' \<and> R (Suc i) t1' t2')"
    if "i < n" "R i t1 t2" for i t1 t2
    using Suc.prems [of i t1 t2] that by simp
  have split1: "for_each [0..<Suc n] body1 s1 =
      (case for_each [0..<n] body1 s1 of Inl e \<Rightarrow> Inl e | Inr t \<Rightarrow> body1 n t)"
    by (rule for_each_upt_Suc)
  have split2: "for_each [0..<Suc n] body2 s2 =
      (case for_each [0..<n] body2 s2 of Inl e \<Rightarrow> Inl e | Inr t \<Rightarrow> body2 n t)"
    by (rule for_each_upt_Suc)
  from Suc.IH [OF step]
  consider e where "for_each [0..<n] body1 s1 = Inl e" "for_each [0..<n] body2 s2 = Inl e"
    | t1 t2 where "for_each [0..<n] body1 s1 = Inr t1" "for_each [0..<n] body2 s2 = Inr t2"
        "R n t1 t2"
    by blast
  then show ?case
  proof cases
    case 1
    have "for_each [0..<Suc n] body1 s1 = Inl e" "for_each [0..<Suc n] body2 s2 = Inl e"
      unfolding split1 split2 using 1 by simp_all
    then show ?thesis by blast
  next
    case 2
    have eq: "for_each [0..<Suc n] body1 s1 = body1 n t1" "for_each [0..<Suc n] body2 s2 = body2 n t2"
      unfolding split1 split2 using 2(1,2) by simp_all
    from Suc.prems [of n t1 t2] 2(3)
    have "(\<exists>e. body1 n t1 = Inl e \<and> body2 n t2 = Inl e) \<or>
           (\<exists>t1' t2'. body1 n t1 = Inr t1' \<and> body2 n t2 = Inr t2' \<and> R (Suc n) t1' t2')"
      by simp
    then show ?thesis unfolding eq .
  qed
qed

lemma sequence_res_success:
  "sequence_res rs = Inr vs \<Longrightarrow> r \<in> set rs \<Longrightarrow> \<exists>v. r = Inr v"
  by (induction rs arbitrary: vs) (auto split: sum.splits)

lemma allocated_row: "allocated h board \<Longrightarrow> i < length board \<Longrightarrow> board ! i < length h"
  by (simp add: allocated_def list_all_length)

lemma get_fresh_allocated:
  assumes "allocated h0 board" and "fresh_rows h0 n w h"
  shows "get h board x y = get h0 board x y"
proof (cases "board = []")
  case True
  then show ?thesis by (simp add: get_def)
next
  case False
  have same: "h ! (board ! i) = h0 ! (board ! i)" if "i < length board" for i
    using allocated_row [OF assms(1) that] assms(2) by (simp add: fresh_rows_def)
  have i: "nat (y mod int (length board)) < length board"
    using False by (simp add: nat_less_iff)
  show ?thesis
    using False same [OF i] same [of 0] by (simp add: get_def)
qed

lemma count_neighbors_fresh_allocated:
  assumes "allocated h0 board" and "fresh_rows h0 n w h"
  shows "count_neighbors h board x y = count_neighbors h0 board x y"
  by (simp add: count_neighbors_def get_fresh_allocated [OF assms])

lemma assign_fresh_any:
  assumes fr: "fresh_rows h0 n w h" and y: "y < n"
  shows "assign h [length h0..<length h0 + n] (int x) (int y) v =
           (if w = 0 then Inl ZeroDivisionError
            else Inr (h[length h0 + y := (h ! (length h0 + y))[x mod w := v]]))"
proof -
  have n: "0 < n" using y by simp
  have "\<forall>i<n. length (h ! (length h0 + i)) = w" using fr by (simp add: fresh_rows_def)
  from this [rule_format, OF n] have w0: "length (h ! length h0) = w" by simp
  have wy: "length (h ! (length h0 + y)) = w" using fr y by (simp add: fresh_rows_def)
  have j: "nat (int x mod int w) = x mod w"
    by (simp add: zmod_int [symmetric])
  show ?thesis
    using n y w0 wy by (simp add: assign_def Let_def j)
qed

lemma process_cell_fresh_any:
  assumes al: "allocated h0 board"
    and fr: "fresh_rows h0 (length board) w (store t)"
    and y: "y < length board"
  shows "process_cell board [length h0..<length h0 + length board] y x t =
           (case count_neighbors h0 board (int x) (int y) of
              Inl e \<Rightarrow> Inl e
            | Inr n \<Rightarrow>
                (case get h0 board (int x) (int y) of
                   Inl e \<Rightarrow> Inl e
                 | Inr c \<Rightarrow>
                     if w = 0 then Inl ZeroDivisionError
                     else Inr (t\<lparr>store := (store t)[length h0 + y :=
                                   (store t ! (length h0 + y))[x mod w := rule_value n (c = 1)]],
                                trace := trace t @ [Count x y, Assign x y (rule_value n (c = 1))]\<rparr>)))"
proof -
  have c: "count_neighbors (store t) board (int x) (int y) = count_neighbors h0 board (int x) (int y)"
    by (rule count_neighbors_fresh_allocated [OF al fr])
  have g: "get (store t) board (int x) (int y) = get h0 board (int x) (int y)"
    by (rule get_fresh_allocated [OF al fr])
  show ?thesis
  proof (cases "count_neighbors h0 board (int x) (int y)")
    case (Inl e)
    then show ?thesis by (simp add: process_cell_def c)
  next
    case n: (Inr n)
    show ?thesis
    proof (cases "get h0 board (int x) (int y)")
      case (Inl e)
      then show ?thesis by (simp add: process_cell_def c g n)
    next
      case (Inr cv)
      then show ?thesis
        by (simp add: process_cell_def c g n Let_def assign_fresh_any [OF fr y])
    qed
  qed
qed


lemma count_neighbors_reads_ok:
  assumes "count_neighbors h0 board 0 (int y) = Inr n"
  shows "reads_ok h0 board y"
proof -
  let ?rs = "[get h0 board (0 - 1) (int y), get h0 board (0 + 1) (int y),
              get h0 board 0 (int y - 1), get h0 board 0 (int y + 1),
              get h0 board (0 + 1) (int y + 1), get h0 board (0 + 1) (int y - 1),
              get h0 board (0 - 1) (int y + 1), get h0 board (0 - 1) (int y - 1)]"
  obtain vs where vs: "sequence_res ?rs = Inr vs"
    using assms unfolding count_neighbors_def by (cases "sequence_res ?rs") simp_all
  have "\<exists>v. get h0 board (0 - 1) (int y) = Inr v"
    by (rule sequence_res_success [OF vs]) simp
  moreover have "\<exists>v. get h0 board 0 (int y + 1) = Inr v"
    by (rule sequence_res_success [OF vs]) simp
  ultimately show ?thesis by (simp add: reads_ok_def)
qed

lemma process_cell_lockstep:
  assumes al: "allocated h0 board" and y: "y < length board"
    and ls: "lockstep h0 board w y x t1 t2"
  shows "(\<exists>e. process_cell board [length h0..<length h0 + length board] y x t1 = Inl e \<and>
              process_cell board [length h0..<length h0 + length board] y x t2 = Inl e) \<or>
         (\<exists>t1' t2'. process_cell board [length h0..<length h0 + length board] y x t1 = Inr t1' \<and>
              process_cell board [length h0..<length h0 + length board] y x t2 = Inr t2' \<and>
              lockstep h0 board w y (Suc x) t1' t2')"
proof -
  let ?L = "length h0" and ?nb = "[length h0..<length h0 + length board]"
  have fr1: "fresh_rows h0 (length board) w (store t1)"
    and fr2: "fresh_rows h0 (length board) w (store t2)"
    using ls by (simp_all add: lockstep_def)
  note p1 = process_cell_fresh_any [OF al fr1 y, of x]
  note p2 = process_cell_fresh_any [OF al fr2 y, of x]
  show ?thesis
  proof (cases "count_neighbors h0 board (int x) (int y)")
    case (Inl e)
    then show ?thesis using p1 p2 by simp
  next
    case n: (Inr n)
    show ?thesis
    proof (cases "get h0 board (int x) (int y)")
      case (Inl e)
      then show ?thesis using p1 p2 n by simp
    next
      case c: (Inr c)
      show ?thesis
      proof (cases "w = 0")
        case True
        then show ?thesis using p1 p2 n c by simp
      next
        case False
        let ?v = "rule_value n (c = 1)"
        let ?u = "\<lambda>t. t\<lparr>store := (store t)[?L + y := (store t ! (?L + y))[x mod w := ?v]],
                      trace := trace t @ [Count x y, Assign x y ?v]\<rparr>"
        have r1: "process_cell board ?nb y x t1 = Inr (?u t1)"
          and r2: "process_cell board ?nb y x t2 = Inr (?u t2)"
          using p1 p2 n c False by simp_all
        have len: "length (store t1) = ?L + length board" "length (store t2) = ?L + length board"
          "length (store t1 ! (?L + y)) = w" "length (store t2 ! (?L + y)) = w"
          using fr1 fr2 y by (simp_all add: fresh_rows_def)
        have xw: "x mod w < w" using False by simp
        have ok: "reads_ok h0 board y"
        proof (cases "x = 0")
          case True
          then show ?thesis using n count_neighbors_reads_ok [of h0 board y n] by simp
        next
          case False
          then show ?thesis using ls by (simp add: lockstep_def)
        qed
        have below: "store (?u t1) ! (?L + y') ! j = store t1 ! (?L + y') ! j"
          "store (?u t2) ! (?L + y') ! j = store t2 ! (?L + y') ! j" if "y' < y" for y' j
          using that by simp_all
        have here: "store (?u t1) ! (?L + y) ! (x' mod w) = store (?u t2) ! (?L + y) ! (x' mod w)"
          if "x' < Suc x" for x'
        proof (cases "x' mod w = x mod w")
          case True
          then show ?thesis using len y xw by simp
        next
          case False
          have "x' < x" using that False by (cases "x' = x") simp_all
          then have "store t1 ! (?L + y) ! (x' mod w) = store t2 ! (?L + y) ! (x' mod w)"
            using ls by (simp add: lockstep_def)
          then show ?thesis using len y False by simp
        qed
        have "lockstep h0 board w y (Suc x) (?u t1) (?u t2)"
          unfolding lockstep_def
        proof (intro conjI allI impI)
          show "fresh_rows h0 (length board) w (store (?u t1))"
            using fresh_rows_update [OF fr1 y] by simp
          show "fresh_rows h0 (length board) w (store (?u t2))"
            using fresh_rows_update [OF fr2 y] by simp
          show "store (?u t1) ! (?L + y') ! (x' mod w) = store (?u t2) ! (?L + y') ! (x' mod w)"
            if "y' < y" "x' < length (h0 ! (board ! y'))" for y' x'
            using that ls below [OF that(1)] by (simp add: lockstep_def)
          show "store (?u t1) ! (?L + y) ! (x' mod w) = store (?u t2) ! (?L + y) ! (x' mod w)"
            if "x' < Suc x" for x'
            by (rule here [OF that])
          show "reads_ok h0 board y'" if "y' < y" "0 < length (h0 ! (board ! y'))" for y'
            using that ls by (simp add: lockstep_def)
          show "reads_ok h0 board y" by (rule ok)
        qed
        then show ?thesis using r1 r2 by blast
      qed
    qed
  qed
qed


lemma process_row_lockstep:
  assumes al: "allocated h0 board" and y: "y < length board"
    and ls: "lockstep h0 board w y 0 t1 t2"
  shows "(\<exists>e. process_row board [length h0..<length h0 + length board] y t1 = Inl e \<and>
              process_row board [length h0..<length h0 + length board] y t2 = Inl e) \<or>
         (\<exists>t1' t2'. process_row board [length h0..<length h0 + length board] y t1 = Inr t1' \<and>
              process_row board [length h0..<length h0 + length board] y t2 = Inr t2' \<and>
              lockstep h0 board w (Suc y) 0 t1' t2')"
proof -
  let ?nb = "[length h0..<length h0 + length board]"
  let ?n = "length (h0 ! (board ! y))"
  have a: "board ! y < length h0" using allocated_row [OF al y] .
  have b1: "length (store t1 ! (board ! y)) = ?n" and b2: "length (store t2 ! (board ! y)) = ?n"
    using ls a by (simp_all add: lockstep_def fresh_rows_def)
  have step: "(\<exists>e. process_cell board ?nb y x u1 = Inl e \<and> process_cell board ?nb y x u2 = Inl e) \<or>
         (\<exists>u1' u2'. process_cell board ?nb y x u1 = Inr u1' \<and>
              process_cell board ?nb y x u2 = Inr u2' \<and> lockstep h0 board w y (Suc x) u1' u2')"
    if "x < ?n" "lockstep h0 board w y x u1 u2" for x u1 u2
    by (rule process_cell_lockstep [OF al y that(2)])
  have "(\<exists>e. for_each [0..<?n] (process_cell board ?nb y) t1 = Inl e \<and>
              for_each [0..<?n] (process_cell board ?nb y) t2 = Inl e) \<or>
         (\<exists>u1 u2. for_each [0..<?n] (process_cell board ?nb y) t1 = Inr u1 \<and>
              for_each [0..<?n] (process_cell board ?nb y) t2 = Inr u2 \<and>
              lockstep h0 board w y ?n u1 u2)"
    by (rule for_each_lockstep [where R = "lockstep h0 board w y"]) (use ls step in blast)+
  moreover have "lockstep h0 board w (Suc y) 0 u1 u2" if "lockstep h0 board w y ?n u1 u2" for u1 u2
    using that unfolding lockstep_def by (auto simp: less_Suc_eq)
  ultimately show ?thesis
    unfolding process_row_def b1 b2 by blast
qed

lemma lockstep_done:
  assumes ne: "board \<noteq> []"
    and ls: "lockstep h0 board (length (h0 ! (board ! 0))) (length board) 0 t1 t2"
  shows "store t1 = store t2"
proof -
  let ?L = "length h0" and ?H = "length board" and ?W = "length (h0 ! (board ! 0))"
  let ?len = "\<lambda>y. length (h0 ! (board ! y))"
  have H: "0 < ?H" using ne by simp
  have fr1: "fresh_rows h0 ?H ?W (store t1)" and fr2: "fresh_rows h0 ?H ?W (store t2)"
    and slots: "\<And>y x. y < ?H \<Longrightarrow> x < ?len y \<Longrightarrow>
            store t1 ! (?L + y) ! (x mod ?W) = store t2 ! (?L + y) ! (x mod ?W)"
    and reads: "\<And>y. y < ?H \<Longrightarrow> 0 < ?len y \<Longrightarrow> reads_ok h0 board y"
    using ls by (simp_all add: lockstep_def)
  have next_row: "0 < ?len (Suc y)" if y: "Suc y < ?H" and ok: "reads_ok h0 board y" for y
  proof -
    obtain v where v: "get h0 board 0 (int y + 1) = Inr v"
      using ok by (auto simp: reads_ok_def)
    have i: "nat ((int y + 1) mod int ?H) = Suc y"
      using y by (simp add: nat_add_distrib)
    have i': "nat (int y + 1) = Suc y" by simp
    show ?thesis
      using v y by (simp add: get_def Let_def i i' split: if_splits)
  qed
  have wide: "?W \<le> ?len y" if y: "y < ?H" and ok: "reads_ok h0 board y" for y
  proof -
    obtain v where v: "get h0 board (- 1) (int y) = Inr v"
      using ok by (auto simp: reads_ok_def)
    have W: "0 < ?W" using v H by (simp add: get_def Let_def split: if_splits)
    have j: "nat ((- 1) mod int ?W) = ?W - 1"
      using W by (simp add: zmod_minus1)
    have "?W - 1 < ?len y"
      using v H W y by (simp add: get_def Let_def j split: if_splits)
    then show ?thesis using W by simp
  qed
  have all_rows: "0 < ?len y" if "0 < ?W" "y < ?H" for y
    using that(2)
  proof (induction y)
    case 0
    then show ?case using that(1) by simp
  next
    case (Suc y)
    then have "0 < ?len y" by simp
    then have "reads_ok h0 board y" using reads [of y] Suc.prems by simp
    then show ?case using next_row [of y] Suc.prems by simp
  qed
  have slot: "store t1 ! (?L + y) ! j = store t2 ! (?L + y) ! j" if "y < ?H" "j < ?W" for y j
  proof -
    have W: "0 < ?W" using that(2) by (cases "h0 ! (board ! 0)") simp_all
    have "reads_ok h0 board y" using reads [OF that(1)] all_rows [OF W that(1)] by simp
    then have "j < ?len y" using wide [OF that(1)] that(2) by simp
    from slots [OF that(1) this] show ?thesis using that(2) by simp
  qed
  have row: "store t1 ! (?L + y) = store t2 ! (?L + y)" if "y < ?H" for y
  proof (rule nth_equalityI)
    show "length (store t1 ! (?L + y)) = length (store t2 ! (?L + y))"
      using fr1 fr2 that by (simp add: fresh_rows_def)
  next
    fix j assume "j < length (store t1 ! (?L + y))"
    then have "j < ?W" using fr1 that by (simp add: fresh_rows_def)
    then show "store t1 ! (?L + y) ! j = store t2 ! (?L + y) ! j" by (rule slot [OF that])
  qed
  show ?thesis
  proof (rule nth_equalityI)
    show "length (store t1) = length (store t2)"
      using fr1 fr2 by (simp add: fresh_rows_def)
  next
    fix a assume a: "a < length (store t1)"
    have len: "length (store t1) = ?L + ?H" using fr1 by (simp add: fresh_rows_def)
    show "store t1 ! a = store t2 ! a"
    proof (cases "a < ?L")
      case True
      then show ?thesis using fr1 fr2 by (simp add: fresh_rows_def)
    next
      case False
      then obtain y where "a = ?L + y" "y < ?H"
        using a len by (metis add_diff_inverse_nat nat_add_left_cancel_less)
      then show ?thesis using row by simp
    qed
  qed
qed

lemma process_life_lockstep:
  assumes al: "allocated (store s) board"
  shows "(\<exists>e. process_life rng1 s board = Inl e \<and>
              process_life rng2 (s\<lparr>draws := k\<rparr>) board = Inl e) \<or>
         (\<exists>s1 s2 next_board.
              process_life rng1 s board = Inr (s1, next_board) \<and>
              process_life rng2 (s\<lparr>draws := k\<rparr>) board = Inr (s2, next_board) \<and>
              store s1 = store s2)"
proof (cases "board = []")
  case True
  then show ?thesis by (simp add: process_life_def)
next
  case False
  let ?h0 = "store s"
  let ?L = "length ?h0" and ?H = "length board" and ?W = "length (?h0 ! (board ! 0))"
  let ?nb = "[?L..<?L + ?H]"
  obtain a where a: "new_board rng1 s (int ?W) (int ?H) 2 3 = Inr (a, ?nb)"
    and fra: "fresh_rows ?h0 ?H ?W (store a)"
    using new_board_ok [of 3 2 rng1 s ?W ?H] by auto
  obtain b where b: "new_board rng2 (s\<lparr>draws := k\<rparr>) (int ?W) (int ?H) 2 3 = Inr (b, ?nb)"
    and frb: "fresh_rows ?h0 ?H ?W (store b)"
    using new_board_ok [of 3 2 rng2 "s\<lparr>draws := k\<rparr>" ?W ?H] by auto
  have init: "lockstep ?h0 board ?W 0 0 a b"
    using fra frb by (simp add: lockstep_def)
  have step: "(\<exists>e. process_row board ?nb y t1 = Inl e \<and> process_row board ?nb y t2 = Inl e) \<or>
         (\<exists>t1' t2'. process_row board ?nb y t1 = Inr t1' \<and> process_row board ?nb y t2 = Inr t2' \<and>
              lockstep ?h0 board ?W (Suc y) 0 t1' t2')"
    if "y < ?H" "lockstep ?h0 board ?W y 0 t1 t2" for y t1 t2
    by (rule process_row_lockstep [OF al that])
  have "(\<exists>e. for_each [0..<?H] (process_row board ?nb) a = Inl e \<and>
              for_each [0..<?H] (process_row board ?nb) b = Inl e) \<or>
         (\<exists>t1 t2. for_each [0..<?H] (process_row board ?nb) a = Inr t1 \<and>
              for_each [0..<?H] (process_row board ?nb) b = Inr t2 \<and>
              lockstep ?h0 board ?W ?H 0 t1 t2)"
    by (rule for_each_lockstep [where R = "\<lambda>y. lockstep ?h0 board ?W y 0"])
      (use init step in blast)+
  then consider e where "for_each [0..<?H] (process_row board ?nb) a = Inl e"
      "for_each [0..<?H] (process_row board ?nb) b = Inl e"
    | t1 t2 where "for_each [0..<?H] (process_row board ?nb) a = Inr t1"
      "for_each [0..<?H] (process_row board ?nb) b = Inr t2"
      "lockstep ?h0 board ?W ?H 0 t1 t2"
    by blast
  then show ?thesis
  proof cases
    case 1
    then show ?thesis using False a b by (simp add: process_life_def)
  next
    case 2
    have "store t1 = store t2" using lockstep_done [OF False 2(3)] .
    then show ?thesis using False a b 2(1,2) by (simp add: process_life_def)
  qed
qed


text \<open>
  Claim C5. \<^verbatim>\<open>process_life\<close> is deterministic although \<^verbatim>\<open>new_board\<close> fills the
  scratch board at random. On a board of any shape, two runs with any two random sources,
  started after any number of earlier draws, either raise the same exception or return
  the same board with the same cells. On a non-empty rectangular board both runs return,
  and the log of each run holds exactly one \<^verbatim>\<open>assign\<close> for every position of the
  scratch board.
\<close>

theorem process_life_deterministic:
  assumes "allocated (store s) board"
  shows "((\<exists>e. process_life rng1 s board = Inl e \<and>
               process_life rng2 (s\<lparr>draws := k\<rparr>) board = Inl e) \<or>
          (\<exists>s1 s2 next_board.
               process_life rng1 s board = Inr (s1, next_board) \<and>
               process_life rng2 (s\<lparr>draws := k\<rparr>) board = Inr (s2, next_board) \<and>
               store s1 = store s2 \<and>
               board_value (store s1) next_board = board_value (store s2) next_board)) \<and>
         (rectangular (store s) board \<longrightarrow>
            (\<exists>s1 s2 next_board evs1 evs2.
               process_life rng1 s board = Inr (s1, next_board) \<and>
               process_life rng2 (s\<lparr>draws := k\<rparr>) board = Inr (s2, next_board) \<and>
               store s1 = store s2 \<and>
               board_value (store s1) next_board = board_value (store s2) next_board \<and>
               trace s1 = trace s @ evs1 \<and> trace s2 = trace s @ evs2 \<and>
               concat (map assigned evs1) = positions (width (store s) board) (length board) \<and>
               concat (map assigned evs2) = positions (width (store s) board) (length board) \<and>
               distinct (positions (width (store s) board) (length board)) \<and>
               set (positions (width (store s) board) (length board))
                 = {0..<width (store s) board} \<times> {0..<length board}))"
proof (intro conjI impI)
  show "(\<exists>e. process_life rng1 s board = Inl e \<and>
               process_life rng2 (s\<lparr>draws := k\<rparr>) board = Inl e) \<or>
          (\<exists>s1 s2 next_board.
               process_life rng1 s board = Inr (s1, next_board) \<and>
               process_life rng2 (s\<lparr>draws := k\<rparr>) board = Inr (s2, next_board) \<and>
               store s1 = store s2 \<and>
               board_value (store s1) next_board = board_value (store s2) next_board)"
    using process_life_lockstep [OF assms, of rng1 rng2 k] by auto
next
  assume r: "rectangular (store s) board"
  then have r2: "rectangular (store (s\<lparr>draws := k\<rparr>)) board" by simp
  show "\<exists>s1 s2 next_board evs1 evs2.
               process_life rng1 s board = Inr (s1, next_board) \<and>
               process_life rng2 (s\<lparr>draws := k\<rparr>) board = Inr (s2, next_board) \<and>
               store s1 = store s2 \<and>
               board_value (store s1) next_board = board_value (store s2) next_board \<and>
               trace s1 = trace s @ evs1 \<and> trace s2 = trace s @ evs2 \<and>
               concat (map assigned evs1) = positions (width (store s) board) (length board) \<and>
               concat (map assigned evs2) = positions (width (store s) board) (length board) \<and>
               distinct (positions (width (store s) board) (length board)) \<and>
               set (positions (width (store s) board) (length board))
                 = {0..<width (store s) board} \<times> {0..<length board}"
    unfolding process_life_rectangular [OF r] process_life_rectangular [OF r2]
    by (simp add: life_trace_assigned distinct_positions set_positions)
qed

theorem process_life_deterministic_witness:
  "allocated (store example_state) example_board \<and>
   rectangular (store example_state) example_board \<and>
   (\<exists>s1 s2 next_board.
      process_life (\<lambda>k. 0) example_state example_board = Inr (s1, next_board) \<and>
      process_life (\<lambda>k. 4) (example_state\<lparr>draws := 7\<rparr>) example_board = Inr (s2, next_board) \<and>
      store s1 = store s2) \<and>
   allocated (store ragged_state) [0, 1] \<and>
   \<not> rectangular (store ragged_state) [0, 1] \<and>
   (\<exists>s1 s2.
      process_life (\<lambda>k. 0) ragged_state [0, 1] = Inr (s1, [2, 3]) \<and>
      process_life (\<lambda>k. 4) (ragged_state\<lparr>draws := 7\<rparr>) [0, 1] = Inr (s2, [2, 3]) \<and>
      store s1 = [[0], [1, 1], [0], [1]] \<and>
      store s2 = [[0], [1, 1], [0], [1]])"
proof -
  have a: "allocated (store example_state) example_board"
    by (simp add: allocated_def example_state_def example_board_def)
  have r: "rectangular (store example_state) example_board"
    by (simp add: rectangular_def example_state_def example_board_def width_def)
  have a': "allocated (store ragged_state) [0, 1]"
    by (simp add: allocated_def ragged_state_def)
  have n: "\<not> rectangular (store ragged_state) [0, 1]"
    by (simp add: rectangular_def ragged_state_def width_def)
  note d = process_life_deterministic [OF a, of "\<lambda>k. 0" "\<lambda>k. 4" 7]
  note d' = process_life_deterministic [OF a', of "\<lambda>k. 0" "\<lambda>k. 4" 7]
  have 1: "\<exists>s1 s2 next_board.
      process_life (\<lambda>k. 0) example_state example_board = Inr (s1, next_board) \<and>
      process_life (\<lambda>k. 4) (example_state\<lparr>draws := 7\<rparr>) example_board = Inr (s2, next_board) \<and>
      store s1 = store s2"
    using d [THEN conjunct2] r by blast
  obtain t1 where t1: "process_life (\<lambda>k. 0) ragged_state [0, 1] = Inr (t1, [2, 3])"
    "store t1 = [[0], [1, 1], [0], [1]]"
    by (simp add: process_life_def new_board_def new_board_step_def new_row_def choice_def
          process_row_def process_cell_def count_neighbors_def get_def assign_def rule_value_def
          ragged_state_def upt_rec Let_def)
  from d' [THEN conjunct1] t1(1)
  obtain t2 where t2: "process_life (\<lambda>k. 4) (ragged_state\<lparr>draws := 7\<rparr>) [0, 1] = Inr (t2, [2, 3])"
    "store t1 = store t2"
    by auto
  have 2: "\<exists>s1 s2.
      process_life (\<lambda>k. 0) ragged_state [0, 1] = Inr (s1, [2, 3]) \<and>
      process_life (\<lambda>k. 4) (ragged_state\<lparr>draws := 7\<rparr>) [0, 1] = Inr (s2, [2, 3]) \<and>
      store s1 = [[0], [1, 1], [0], [1]] \<and>
      store s2 = [[0], [1, 1], [0], [1]]"
    using t1 t2 by auto
  show ?thesis using a r a' n 1 2 by blast
qed

end
